theory Spec2Isabelle
  imports Main
begin

section \<open>JavaScript numbers and arrays\<close>

text \<open>
  The numeric arguments of the history store (\<open>rewind(n)\<close>, \<open>limit\<close>) and the priorities
  of the program are JavaScript numbers.  The model covers the integer-valued numbers
  together with \<open>Infinity\<close>, \<open>-Infinity\<close> and \<open>NaN\<close>; fractional numbers are outside
  the model.
\<close>

datatype number = Finite int | Infinity | NegInfinity | NaN

text \<open>JavaScript \<open>a < b\<close>: false as soon as one side is \<open>NaN\<close>.\<close>

fun num_lt :: "number \<Rightarrow> number \<Rightarrow> bool" where
  "num_lt NaN b = False"
| "num_lt a NaN = False"
| "num_lt (Finite a) (Finite b) = (a < b)"
| "num_lt (Finite a) Infinity = True"
| "num_lt NegInfinity (Finite b) = True"
| "num_lt NegInfinity Infinity = True"
| "num_lt a b = False"

text \<open>JavaScript \<open>a <= b\<close>.\<close>

definition num_le :: "number \<Rightarrow> number \<Rightarrow> bool" where
  "num_le a b = (a \<noteq> NaN \<and> b \<noteq> NaN \<and> \<not> num_lt b a)"

text \<open>JavaScript \<open>a - b\<close>.\<close>

fun num_sub :: "number \<Rightarrow> number \<Rightarrow> number" where
  "num_sub NaN b = NaN"
| "num_sub a NaN = NaN"
| "num_sub (Finite a) (Finite b) = Finite (a - b)"
| "num_sub (Finite a) Infinity = NegInfinity"
| "num_sub (Finite a) NegInfinity = Infinity"
| "num_sub Infinity Infinity = NaN"
| "num_sub Infinity b = Infinity"
| "num_sub NegInfinity NegInfinity = NaN"
| "num_sub NegInfinity b = NegInfinity"

text \<open>\<open>Number.isFinite\<close>.\<close>

fun isFinite :: "number \<Rightarrow> bool" where
  "isFinite (Finite i) = True"
| "isFinite n = False"

text \<open>
  \<open>Array.prototype.splice(start, deleteCount)\<close> with no inserted items, as the array it
  leaves behind: a negative start counts from the end, both arguments are clamped to the
  array, and \<open>NaN\<close> converts to 0.
\<close>

definition array_splice :: "number \<Rightarrow> number \<Rightarrow> 'a list \<Rightarrow> 'a list" where
  "array_splice start deleteCount xs =
    (let len = int (length xs);
         actualStart = (case start of
             Finite i \<Rightarrow> if i < 0 then max (len + i) 0 else min i len
           | Infinity \<Rightarrow> len
           | NegInfinity \<Rightarrow> 0
           | NaN \<Rightarrow> 0);
         actualDeleteCount = (case deleteCount of
             Finite d \<Rightarrow> min (max d 0) (len - actualStart)
           | Infinity \<Rightarrow> len - actualStart
           | NegInfinity \<Rightarrow> 0
           | NaN \<Rightarrow> 0)
     in take (nat actualStart) xs @ drop (nat (actualStart + actualDeleteCount)) xs)"

section \<open>The history store (class HistoryManager)\<close>

text \<open>A state is an object: a finite table from field names to values.\<close>

type_synonym 'v MachineState = "string \<rightharpoonup> 'v"

text \<open>
  The source shares state objects: the record that \<open>_nextTick\<close> pushes is the pending
  state object itself, a full reset pushes the initial state object, \<open>exit()\<close> stores the
  object that \<open>currentState\<close> returns, and \<open>_mutateTick(p)\<close> deletes properties from the
  object \<open>p\<close> that it is given.  So every state object that the machine holds is kept with
  its identity: where it was created (by the history store or by \<open>exit\<close>) and its
  number there.  Two fields hold the same object exactly when they hold the same identity,
  and a write to an object is made in every field that holds it.
\<close>

datatype object_id = HistoryObject nat | MachineObject nat

type_synonym 'v object = "object_id \<times> 'v MachineState"

text \<open>
  An input binding: the state key it feeds, the property of the machine instance it
  reads, and the optional transform (called with the instance as \<open>this\<close>).
\<close>

record 'v InputMapping =
  key :: string
  propertyKey :: string
  transform :: "((string \<Rightarrow> 'v) \<Rightarrow> 'v \<Rightarrow> 'v) option"

text \<open>
  The fields of the class.  \<open>instance_props\<close> is the machine instance as the input
  bindings see it: the value of each of its properties.  \<open>records_minus1\<close> is the
  property \<open>"-1"\<close> of the records array: \<open>records[records.length - 1]\<close> reads and writes
  it when the array is empty.  \<open>objects_created\<close> counts the calls of
  \<open>Object.create(null)\<close> whose object the history keeps; it numbers the next one.
\<close>

record 'v HistoryManager =
  maxHistory :: number
  inputKeys :: "string list"
  instance_props :: "string \<Rightarrow> 'v"
  initialState_object :: "'v object"
  inputs :: "'v InputMapping list"
  records_objects :: "'v object list"
  records_minus1 :: "'v object option"
  tick :: int
  nextState_object :: "'v object"
  objects_created :: nat

text \<open>The getters \<open>initialState\<close>, \<open>records\<close> and \<open>nextState\<close>, as the states they show.\<close>

abbreviation initialState :: "'v HistoryManager \<Rightarrow> 'v MachineState" where
  "initialState h \<equiv> snd (initialState_object h)"

abbreviation records :: "'v HistoryManager \<Rightarrow> 'v MachineState list" where
  "records h \<equiv> map snd (records_objects h)"

abbreviation nextState :: "'v HistoryManager \<Rightarrow> 'v MachineState" where
  "nextState h \<equiv> snd (nextState_object h)"

text \<open>The value one binding contributes: the property read, transformed if there is a transform.\<close>

definition input_value :: "(string \<Rightarrow> 'v) \<Rightarrow> 'v InputMapping \<Rightarrow> 'v" where
  "input_value inst input =
     (let v = inst (propertyKey input)
      in case transform input of
           Some f \<Rightarrow> f inst v
         | None \<Rightarrow> v)"

definition collectInputs :: "'v HistoryManager \<Rightarrow> 'v MachineState" where
  "collectInputs h =
     fold (\<lambda>input acc. acc(key input \<mapsto> input_value (instance_props h) input))
          (inputs h) Map.empty"

text \<open>\<open>this.records[this.records.length - 1]\<close>; \<open>None\<close> is \<open>undefined\<close>.\<close>

definition records_last :: "'v HistoryManager \<Rightarrow> 'v object option" where
  "records_last h =
     (if records_objects h = [] then records_minus1 h else Some (last (records_objects h)))"

text \<open>\<open>this._records[this._records.length - 1] = v\<close>.\<close>

definition set_records_last :: "'v object \<Rightarrow> 'v HistoryManager \<Rightarrow> 'v HistoryManager" where
  "set_records_last v h =
     (if records_objects h = [] then h\<lparr>records_minus1 := Some v\<rparr>
      else h\<lparr>records_objects := (records_objects h)[length (records_objects h) - 1 := v]\<rparr>)"

text \<open>
  The getter \<open>currentState\<close>: the object it returns, and the state that object holds.
\<close>

definition currentState_object :: "'v HistoryManager \<Rightarrow> 'v object" where
  "currentState_object h = (case records_last h of Some r \<Rightarrow> r | None \<Rightarrow> nextState_object h)"

definition currentState :: "'v HistoryManager \<Rightarrow> 'v MachineState" where
  "currentState h = snd (currentState_object h)"

text \<open>\<open>_beginTick()\<close>: the pending state is a new object.\<close>

definition beginTick :: "'v HistoryManager \<Rightarrow> 'v HistoryManager" where
  "beginTick h =
     h\<lparr>nextState_object :=
         (HistoryObject (objects_created h),
          (case records_last h of Some r \<Rightarrow> snd r | None \<Rightarrow> Map.empty) ++ collectInputs h),
       objects_created := objects_created h + 1\<rparr>"

text \<open>\<open>_nextTick()\<close>: the pending state object becomes the newest record.\<close>

definition nextTick :: "'v HistoryManager \<Rightarrow> 'v HistoryManager" where
  "nextTick h =
     (let h1 = h\<lparr>records_objects := records_objects h @ [nextState_object h]\<rparr>;
          len = Finite (int (length (records_objects h1)));
          h2 = (if num_lt (maxHistory h1) len
                then h1\<lparr>records_objects :=
                         array_splice (Finite 0) (num_sub len (maxHistory h1)) (records_objects h1)\<rparr>
                else h1);
          h3 = beginTick h2
      in h3\<lparr>tick := tick h3 + 1\<rparr>)"

text \<open>The getter of \<open>limit\<close>.\<close>

definition limit :: "'v HistoryManager \<Rightarrow> number" where
  "limit h = maxHistory h"

text \<open>The setter of \<open>limit\<close>.\<close>

definition set_limit :: "number \<Rightarrow> 'v HistoryManager \<Rightarrow> 'v HistoryManager" where
  "set_limit limit0 h =
     (let limit = (if num_lt limit0 (Finite 1) then Finite 1 else limit0);
          h1 = (if num_lt limit (maxHistory h)
                then h\<lparr>records_objects := array_splice (Finite 0)
                        (num_sub (Finite (int (length (records_objects h)))) limit)
                        (records_objects h)\<rparr>
                else h)
      in h1\<lparr>maxHistory := limit\<rparr>)"

text \<open>
  \<open>rewind(n, mutate)\<close>.  The first branch is taken for a finite \<open>n\<close> only, so that
  \<open>this._tick -= n\<close> is integer subtraction.  The second branch pushes the initial state
  object itself.  The mutation is read, not written: it is merged with the current state
  into a new object, which replaces the newest record.
\<close>

definition rewind :: "number \<Rightarrow> 'v MachineState option \<Rightarrow> 'v HistoryManager \<Rightarrow> 'v HistoryManager" where
  "rewind n mutate h =
     (let h1 = (if num_le n (maxHistory h) \<and> isFinite n
                then h\<lparr>records_objects :=
                         array_splice n (num_sub (Finite (int (length (records_objects h)))) n)
                           (records_objects h),
                       tick := (case n of Finite i \<Rightarrow> tick h - i | _ \<Rightarrow> tick h)\<rparr>
                else h\<lparr>records_objects := [initialState_object h], tick := 0\<rparr>);
          h2 = (case mutate of
                  Some m \<Rightarrow>
                    set_records_last (HistoryObject (objects_created h1), currentState h1 ++ m)
                      (h1\<lparr>objects_created := objects_created h1 + 1\<rparr>)
                | None \<Rightarrow> h1)
      in beginTick h2)"

definition clear :: "'v HistoryManager \<Rightarrow> 'v HistoryManager" where
  "clear h = rewind Infinity None h"

text \<open>
  The constructor: the field initialisers, the input keys, the initial state (a new
  object: the argument merged with the first collection of inputs), the first pending
  state (a new object, a copy of the initial state), and the first commit.  In \<open>h0\<close>
  the two state fields already carry the identities of the objects that the constructor
  creates for them in \<open>h1\<close> and \<open>h2\<close>.
\<close>

definition HistoryManager_new ::
  "(string \<Rightarrow> 'v) \<Rightarrow> 'v MachineState \<Rightarrow> 'v InputMapping list \<Rightarrow> 'v HistoryManager" where
  "HistoryManager_new inst init inps =
     (let h0 = \<lparr>maxHistory = Infinity, inputKeys = map key inps, instance_props = inst,
                initialState_object = (HistoryObject 0, init), inputs = inps,
                records_objects = [], records_minus1 = None,
                tick = 0, nextState_object = (HistoryObject 1, Map.empty), objects_created = 2\<rparr>;
          h1 = h0\<lparr>initialState_object := (HistoryObject 0, init ++ collectInputs h0)\<rparr>;
          h2 = h1\<lparr>nextState_object := (HistoryObject 1, initialState h1)\<rparr>
      in nextTick h2)"

text \<open>
  A write to the object \<open>i\<close>, seen through one reference \<open>ob\<close>: it changes what
  \<open>ob\<close> holds when \<open>ob\<close> is that object.
\<close>

definition update_contents ::
  "object_id \<Rightarrow> ('v MachineState \<Rightarrow> 'v MachineState) \<Rightarrow> 'v object \<Rightarrow> 'v object" where
  "update_contents i f ob = (if fst ob = i then (i, f (snd ob)) else ob)"

text \<open>\<open>for (let k of ks) delete p[k]\<close>, on the state that \<open>p\<close> holds.\<close>

definition delete_keys :: "string list \<Rightarrow> 'v MachineState \<Rightarrow> 'v MachineState" where
  "delete_keys ks p = fold (\<lambda>k q. q(k := None)) ks p"

text \<open>
  \<open>_mutateTick(p)\<close>.  The argument \<open>p\<close> is an object: its identity when the machine holds
  it (\<open>None\<close> when it does not), and the state it holds at the call.  The method makes two
  writes: it deletes the input keys from the object \<open>p\<close>, then it assigns what is left of
  \<open>p\<close> to the pending state object.  \<open>mutateTick_write\<close> is the two writes as one
  reference sees them; \<open>mutateTick\<close> makes them in every field of the history.
\<close>

type_synonym 'v argument = "object_id option \<times> 'v MachineState"

definition mutateTick_write :: "'v argument \<Rightarrow> 'v HistoryManager \<Rightarrow> 'v object \<Rightarrow> 'v object" where
  "mutateTick_write p h ob =
     update_contents (fst (nextState_object h)) (\<lambda>n. n ++ delete_keys (inputKeys h) (snd p))
       (case fst p of
          Some i \<Rightarrow> update_contents i (delete_keys (inputKeys h)) ob
        | None \<Rightarrow> ob)"

definition mutateTick :: "'v argument \<Rightarrow> 'v HistoryManager \<Rightarrow> 'v HistoryManager" where
  "mutateTick p h =
     h\<lparr>initialState_object := mutateTick_write p h (initialState_object h),
       records_objects := map (mutateTick_write p h) (records_objects h),
       records_minus1 := map_option (mutateTick_write p h) (records_minus1 h),
       nextState_object := mutateTick_write p h (nextState_object h)\<rparr>"

section \<open>The execution engine (class StateMachine)\<close>

text \<open>
  The machine's mutable fields.  The program is kept apart: it is fixed once the machine
  is constructed, and its conditions and actions receive the machine.
  \<open>exit_objects_created\<close> counts the objects that \<open>exit\<close> has created.
\<close>

record 'v StateMachine =
  history :: "'v HistoryManager"
  exitState_object :: "'v object option"
  exit_objects_created :: nat

text \<open>The getter \<open>exitState\<close>, as the state it shows; \<open>None\<close> is \<open>undefined\<close>.\<close>

abbreviation exitState :: "'v StateMachine \<Rightarrow> 'v MachineState option" where
  "exitState m \<equiv> map_option snd (exitState_object m)"

text \<open>
  What an action returns: nothing (any falsy value), an object that the machine does not
  hold (\<open>Fresh\<close>, with the state in it), or one of the objects that the machine holds
  when the action returns (\<open>Held\<close>): the pending state \<open>history.nextState\<close>, the current
  state \<open>history.currentState\<close> (the action's \<open>state\<close> argument, unless the action has
  changed the records), the initial state, a record \<open>history.records[i]\<close>, or the exit
  state.
\<close>

datatype reference = NextStateRef | CurrentStateRef | InitialStateRef | RecordRef int | ExitStateRef

datatype 'v NewState = Undefined | Fresh "'v MachineState" | Held reference

text \<open>
  A condition is a predicate over the current state and the machine; conditions and
  priority functions are taken to be free of side effects.  An action receives state and
  machine as well; whatever it did to the machine through \<open>this\<close> (\<open>exit\<close>, \<open>reset\<close>,
  \<open>history.rewind\<close>, ...) is the machine it returns.  An action that calls \<open>step\<close> or
  \<open>run\<close> itself is outside the model.
\<close>

type_synonym 'v ActivationCond = "'v MachineState \<Rightarrow> 'v StateMachine \<Rightarrow> bool"

type_synonym 'v ActivationAction =
  "'v MachineState \<Rightarrow> 'v StateMachine \<Rightarrow> 'v NewState \<times> 'v StateMachine"

text \<open>
  The priority of an entry: a number, a function of state and machine, or \<open>undefined\<close>
  (no priority was registered).
\<close>

datatype 'v Priority =
    PNumber number
  | PExpression "'v MachineState \<Rightarrow> 'v StateMachine \<Rightarrow> number"
  | PUndefined

record 'v ProgramEntry =
  action :: "'v ActivationAction"
  priority :: "'v Priority"

text \<open>
  The entries of the \<open>_program\<close> map, in insertion order, as \<open>_program.entries()\<close> yields
  them.
\<close>

type_synonym 'v Program = "('v ActivationCond \<times> 'v ProgramEntry) list"

text \<open>An element of the sorted array \<open>actions\<close>: condition, action, resolved priority.\<close>

type_synonym 'v ResolvedEntry = "'v ActivationCond \<times> 'v ActivationAction \<times> number"

text \<open>\<open>p || 0\<close> on a number: 0 and \<open>NaN\<close> are falsy.\<close>

definition or_zero :: "number \<Rightarrow> number" where
  "or_zero p = (if p = NaN \<or> p = Finite 0 then Finite 0 else p)"

definition resolve_priority :: "'v Priority \<Rightarrow> 'v MachineState \<Rightarrow> 'v StateMachine \<Rightarrow> number" where
  "resolve_priority p currentState0 m =
     (case p of
        PExpression f \<Rightarrow> or_zero (f currentState0 m)
      | PNumber n \<Rightarrow> or_zero n
      | PUndefined \<Rightarrow> Finite 0)"

text \<open>
  \<open>Array.prototype.sort(comparefn)\<close>: a comparator result of \<open>NaN\<close> counts as 0, and the
  sort is stable (ECMAScript 2019): an element moves behind another one only when the
  comparator returns a positive number for the pair.
\<close>

definition SortCompare :: "('a \<Rightarrow> 'a \<Rightarrow> number) \<Rightarrow> 'a \<Rightarrow> 'a \<Rightarrow> number" where
  "SortCompare comparefn x y = (let v = comparefn x y in if v = NaN then Finite 0 else v)"

fun sort_insert :: "('a \<Rightarrow> 'a \<Rightarrow> number) \<Rightarrow> 'a \<Rightarrow> 'a list \<Rightarrow> 'a list" where
  "sort_insert comparefn x [] = [x]"
| "sort_insert comparefn x (y # ys) =
     (if num_lt (Finite 0) (SortCompare comparefn x y) then y # sort_insert comparefn x ys
      else x # y # ys)"

definition array_sort :: "('a \<Rightarrow> 'a \<Rightarrow> number) \<Rightarrow> 'a list \<Rightarrow> 'a list" where
  "array_sort comparefn xs = foldr (sort_insert comparefn) xs []"

text \<open>The comparator of \<open>step\<close>: \<open>p1 - p2\<close> on the resolved priorities.\<close>

definition entry_priority :: "'v ResolvedEntry \<Rightarrow> number" where
  "entry_priority e = snd (snd e)"

definition by_priority :: "'v ResolvedEntry \<Rightarrow> 'v ResolvedEntry \<Rightarrow> number" where
  "by_priority e1 e2 = num_sub (entry_priority e1) (entry_priority e2)"

text \<open>
  The array \<open>actions\<close> of \<open>step\<close>: the entries with their priorities resolved against
  the current state (\<open>resolved_entries\<close>, the \<open>map\<close> call), then sorted.
\<close>

definition resolved_entries :: "'v Program \<Rightarrow> 'v StateMachine \<Rightarrow> 'v ResolvedEntry list" where
  "resolved_entries prog m =
     map (\<lambda>(cond, entry).
            (cond, action entry,
             resolve_priority (priority entry) (currentState (history m)) m))
         prog"

definition sorted_actions :: "'v Program \<Rightarrow> 'v StateMachine \<Rightarrow> 'v ResolvedEntry list" where
  "sorted_actions prog m = array_sort by_priority (resolved_entries prog m)"

text \<open>
  The object behind a reference, in the machine as the action left it; \<open>None\<close> when there
  is none (\<open>undefined\<close>).  The index \<open>-1\<close> of the records array is its property \<open>"-1"\<close>.
\<close>

definition held_object :: "reference \<Rightarrow> 'v StateMachine \<Rightarrow> 'v object option" where
  "held_object r m =
     (case r of
        NextStateRef \<Rightarrow> Some (nextState_object (history m))
      | CurrentStateRef \<Rightarrow> Some (currentState_object (history m))
      | InitialStateRef \<Rightarrow> Some (initialState_object (history m))
      | RecordRef i \<Rightarrow>
          (if i = - 1 then records_minus1 (history m)
           else if 0 \<le> i \<and> i < int (length (records_objects (history m)))
           then Some (records_objects (history m) ! nat i)
           else None)
      | ExitStateRef \<Rightarrow> exitState_object m)"

text \<open>
  The value an action returned, as the argument of \<open>_mutateTick\<close>; \<open>None\<close> when it is
  falsy.
\<close>

definition argument_of :: "'v NewState \<Rightarrow> 'v StateMachine \<Rightarrow> 'v argument option" where
  "argument_of newState m =
     (case newState of
        Undefined \<Rightarrow> None
      | Fresh q \<Rightarrow> Some (None, q)
      | Held r \<Rightarrow> map_option (\<lambda>ob. (Some (fst ob), snd ob)) (held_object r m))"

text \<open>
  What \<open>step\<close> does with the value an action returned: \<open>if (newState)
  this._history._mutateTick(newState)\<close>.  The writes of \<open>_mutateTick\<close> reach the exit
  state as well, when it is one of the objects written.
\<close>

definition stage :: "'v NewState \<Rightarrow> 'v StateMachine \<Rightarrow> 'v StateMachine" where
  "stage newState m =
     (case argument_of newState m of
        Some p \<Rightarrow>
          m\<lparr>history := mutateTick p (history m),
            exitState_object := map_option (mutateTick_write p (history m)) (exitState_object m)\<rparr>
      | None \<Rightarrow> m)"

text \<open>
  The \<open>for\<close> loop of \<open>step\<close>.  It ends in one of two ways: the early \<open>return\<close> of the
  rewind check (\<open>Aborted\<close>), or the end of the array or the \<open>break\<close> (\<open>Completed\<close>).
\<close>

datatype 'v LoopResult = Aborted nat "'v StateMachine" | Completed nat "'v StateMachine"

fun step_loop ::
  "int \<Rightarrow> 'v ResolvedEntry list \<Rightarrow> nat \<Rightarrow> 'v StateMachine \<Rightarrow> 'v LoopResult" where
  "step_loop currentTick [] fired m = Completed fired m"
| "step_loop currentTick ((cond, act, p) # rest) fired m =
     (if tick (history m) \<noteq> currentTick \<and> exitState m = None then Aborted (max 1 fired) m
      else if exitState m \<noteq> None then Completed fired m
      else if cond (currentState (history m)) m then
        (case act (currentState (history m)) m of
           (newState, m') \<Rightarrow> step_loop currentTick rest (fired + 1) (stage newState m'))
      else step_loop currentTick rest fired m)"

text \<open>The first statement of \<open>step\<close>: a commit, when no tick has been committed yet.\<close>

definition bootstrap :: "'v StateMachine \<Rightarrow> 'v StateMachine" where
  "bootstrap m = (if tick (history m) < 1 then m\<lparr>history := nextTick (history m)\<rparr> else m)"

definition step :: "'v Program \<Rightarrow> 'v StateMachine \<Rightarrow> nat \<times> 'v StateMachine" where
  "step prog m =
     (let m0 = bootstrap m;
          currentTick = tick (history m0);
          actions = sorted_actions prog m0
      in case step_loop currentTick actions 0 m0 of
           Aborted n m1 \<Rightarrow> (n, m1)
         | Completed fired m1 \<Rightarrow>
             (let m2 = m1\<lparr>history := nextTick (history m1)\<rparr>;
                  m3 = (if fired = 0
                        then m2\<lparr>exitState_object := Some (currentState_object (history m2))\<rparr>
                        else m2)
              in (fired, m3)))"

text \<open>
  \<open>run(forever)\<close>.  The loop need not end, so the model counts its iterations down from
  a bound: \<open>None\<close> means the bound was reached before the loop ended.
\<close>

definition run_result :: "'v StateMachine \<Rightarrow> 'v MachineState" where
  "run_result m = (case exitState m of Some e \<Rightarrow> e | None \<Rightarrow> currentState (history m))"

fun run :: "nat \<Rightarrow> 'v Program \<Rightarrow> bool \<Rightarrow> 'v StateMachine \<Rightarrow> 'v MachineState option" where
  "run 0 prog forever m = (if exitState m = None then None else Some (run_result m))"
| "run (Suc fuel) prog forever m =
     (if exitState m = None then
        (case step prog m of
           (change, m') \<Rightarrow>
             if \<not> forever \<and> change = 0 then Some (run_result m')
             else run fuel prog forever m')
      else Some (run_result m))"

text \<open>\<open>reset(initialState)\<close>; the argument defaults to the history's initial state.\<close>

definition reset :: "'v MachineState option \<Rightarrow> 'v StateMachine \<Rightarrow> 'v StateMachine" where
  "reset initialState0 m =
     (let init = (case initialState0 of Some s \<Rightarrow> s | None \<Rightarrow> initialState (history m));
          m1 = m\<lparr>exitState_object := None\<rparr>
      in m1\<lparr>history := rewind Infinity (Some init) (history m1)\<rparr>)"

text \<open>
  \<open>exit(exitState)\<close>: with an argument the exit state is a new object, without one it is
  the object that \<open>currentState\<close> returns.
\<close>

definition exit :: "'v MachineState option \<Rightarrow> 'v StateMachine \<Rightarrow> 'v StateMachine" where
  "exit exitState0 m =
     (case exitState0 of
        Some e \<Rightarrow>
          m\<lparr>exitState_object :=
              Some (MachineObject (exit_objects_created m), currentState (history m) ++ e),
            exit_objects_created := exit_objects_created m + 1\<rparr>
      | None \<Rightarrow> m\<lparr>exitState_object := Some (currentState_object (history m))\<rparr>)"

text \<open>
  The constructor, with the program and the input bindings already resolved: a new
  history and no exit state.
\<close>

definition StateMachine_new ::
  "(string \<Rightarrow> 'v) \<Rightarrow> 'v MachineState \<Rightarrow> 'v InputMapping list \<Rightarrow> 'v StateMachine" where
  "StateMachine_new inst init inps =
     \<lparr>history = HistoryManager_new inst init inps, exitState_object = None,
      exit_objects_created = 0\<rparr>"

section \<open>Scenarios and auxiliary notions\<close>

text \<open>Calling \<open>step()\<close> \<open>n\<close> times in a row, and committing \<open>n\<close> times in a row.\<close>

fun step_times :: "nat \<Rightarrow> 'v Program \<Rightarrow> 'v StateMachine \<Rightarrow> 'v StateMachine" where
  "step_times 0 prog m = m"
| "step_times (Suc n) prog m = snd (step prog (step_times n prog m))"

definition after_commits :: "nat \<Rightarrow> 'v HistoryManager \<Rightarrow> 'v HistoryManager" where
  "after_commits n h = (nextTick ^^ n) h"

text \<open>
  The values \<open>_maxHistory\<close> can hold: its initial value \<open>Infinity\<close> and what the setter of
  \<open>limit\<close> stores (a number below 1 is replaced by 1; \<open>NaN\<close> is stored as it is).
\<close>

definition valid_limit :: "number \<Rightarrow> bool" where
  "valid_limit l =
     (case l of Finite i \<Rightarrow> 1 \<le> i | Infinity \<Rightarrow> True | NegInfinity \<Rightarrow> False | NaN \<Rightarrow> True)"

text \<open>
  An action result that is nothing or an object of the action's own, not one of the
  objects that the machine holds.
\<close>

fun own_object :: "'v NewState \<Rightarrow> bool" where
  "own_object (Held r) = False"
| "own_object newState = True"

text \<open>
  The partial states, input keys removed, that the entries of a list stage when the list
  is evaluated from front to back: the result of each entry whose condition holds on the
  machine that the entries before it have left.
\<close>

fun staged :: "'v ResolvedEntry list \<Rightarrow> 'v StateMachine \<Rightarrow> 'v MachineState list" where
  "staged [] m = []"
| "staged ((cond, act, p) # rest) m =
     (if cond (currentState (history m)) m then
        (case fst (act (currentState (history m)) m) of
           Fresh q \<Rightarrow> delete_keys (inputKeys (history m)) q # staged rest (stage (Fresh q) m)
         | newState \<Rightarrow> staged rest m)
      else staged rest m)"

text \<open>
  The evaluation of a list of entries in the order of the list, written as a fold from the
  first entry to the last.  As long as the evaluation goes on, the visit of an entry ends
  it with the abort (the tick counter has changed and no exit state is set) or with the
  stop (an exit state is set), or it evaluates the condition of the entry on the current
  state and, if it holds, the action, whose result is staged.  Once the evaluation has
  ended, no further entry is evaluated.  \<open>finish_tick\<close> is what follows the loop in
  \<open>step\<close>: nothing after an abort, otherwise the commit and, when nothing fired, the
  exit state.
\<close>

datatype 'v Iteration =
    Iterating nat "'v StateMachine"
  | AbortedAt nat "'v StateMachine"
  | StoppedAt nat "'v StateMachine"

definition visit_entry :: "int \<Rightarrow> 'v Iteration \<Rightarrow> 'v ResolvedEntry \<Rightarrow> 'v Iteration" where
  "visit_entry currentTick it e =
     (case it of
        Iterating fired m \<Rightarrow>
          if tick (history m) \<noteq> currentTick \<and> exitState m = None
          then AbortedAt (max 1 fired) m
          else if exitState m \<noteq> None then StoppedAt fired m
          else if fst e (currentState (history m)) m
          then Iterating (fired + 1)
                 (stage (fst (fst (snd e) (currentState (history m)) m))
                    (snd (fst (snd e) (currentState (history m)) m)))
          else Iterating fired m
      | AbortedAt n m \<Rightarrow> AbortedAt n m
      | StoppedAt n m \<Rightarrow> StoppedAt n m)"

definition iterate_in_order ::
  "int \<Rightarrow> 'v ResolvedEntry list \<Rightarrow> 'v StateMachine \<Rightarrow> 'v Iteration" where
  "iterate_in_order currentTick es m = foldl (visit_entry currentTick) (Iterating 0 m) es"

definition commit_tick :: "nat \<Rightarrow> 'v StateMachine \<Rightarrow> nat \<times> 'v StateMachine" where
  "commit_tick fired m =
     (fired,
      if fired = 0
      then m\<lparr>history := nextTick (history m),
             exitState_object := Some (currentState_object (nextTick (history m)))\<rparr>
      else m\<lparr>history := nextTick (history m)\<rparr>)"

definition finish_tick :: "'v Iteration \<Rightarrow> nat \<times> 'v StateMachine" where
  "finish_tick it =
     (case it of
        AbortedAt n m \<Rightarrow> (n, m)
      | Iterating fired m \<Rightarrow> commit_tick fired m
      | StoppedAt fired m \<Rightarrow> commit_tick fired m)"

text \<open>
  Scenario A of the specification: one entry, always enabled, that increments the field
  \<open>counter\<close>, on the initial state \<open>{counter: 0}\<close>.  Scenario B adds an entry of priority 1
  that calls \<open>exit()\<close> once the counter has reached 3.  The machine has no input bindings.
\<close>

definition counter_init :: "int MachineState" where
  "counter_init = [''counter'' \<mapsto> 0]"

definition always :: "int ActivationCond" where
  "always s m = True"

definition increment :: "int ActivationAction" where
  "increment s m =
     (case s ''counter'' of
        Some c \<Rightarrow> (Fresh [''counter'' \<mapsto> c + 1], m)
      | None \<Rightarrow> (Undefined, m))"

definition counter_ge3 :: "int ActivationCond" where
  "counter_ge3 s m = (case s ''counter'' of Some c \<Rightarrow> 3 \<le> c | None \<Rightarrow> False)"

definition halt :: "int ActivationAction" where
  "halt s m = (Undefined, exit None m)"

definition scenario_A :: "int Program" where
  "scenario_A = [(always, \<lparr>action = increment, priority = PNumber (Finite 0)\<rparr>)]"

definition scenario_B :: "int Program" where
  "scenario_B = scenario_A @ [(counter_ge3, \<lparr>action = halt, priority = PNumber (Finite 1)\<rparr>)]"

definition machine0 :: "int StateMachine" where
  "machine0 = StateMachine_new (\<lambda>_. 0) counter_init []"

text \<open>
  The machine of the scenarios after \<open>k\<close> steps that each incremented the counter.  The
  initial state is the first object of the history, the records are the objects 1 to
  \<open>k + 1\<close>, and the pending state is the object \<open>k + 2\<close>.
\<close>

definition counter_machine :: "nat \<Rightarrow> int StateMachine" where
  "counter_machine k =
     \<lparr>history = \<lparr>maxHistory = Infinity, inputKeys = [], instance_props = (\<lambda>_. 0),
                 initialState_object = (HistoryObject 0, counter_init), inputs = [],
                 records_objects =
                   map (\<lambda>i. (HistoryObject (Suc i), [''counter'' \<mapsto> int i])) [0..<Suc k],
                 records_minus1 = None, tick = int k + 1,
                 nextState_object = (HistoryObject (k + 2), [''counter'' \<mapsto> int k]),
                 objects_created = k + 3\<rparr>,
      exitState_object = None, exit_objects_created = 0\<rparr>"

text \<open>The machine of scenario A after two and after three calls of \<open>step()\<close>.\<close>

definition machine2 :: "int StateMachine" where
  "machine2 = step_times 2 scenario_A machine0"

definition machine3 :: "int StateMachine" where
  "machine3 = step_times 3 scenario_A machine0"

text \<open>
  The history of scenario A after four steps, with the retention limit then lowered to 2.
\<close>

definition limited_history :: "int HistoryManager" where
  "limited_history = set_limit (Finite 2) (history (step_times 4 scenario_A machine0))"

text \<open>
  A machine with a state of two fields, and a new initial state that names one of them.
\<close>

definition ab_init :: "int MachineState" where
  "ab_init = [''a'' \<mapsto> 1, ''b'' \<mapsto> 2]"

definition a_only :: "int MachineState" where
  "a_only = [''a'' \<mapsto> 5]"

definition machine_ab :: "int StateMachine" where
  "machine_ab = StateMachine_new (\<lambda>_. 0) ab_init []"

text \<open>
  A program that becomes quiescent: the increment of scenario A, enabled while the counter
  is below 2.
\<close>

definition counter_lt2 :: "int ActivationCond" where
  "counter_lt2 s m = (case s ''counter'' of Some c \<Rightarrow> c < 2 | None \<Rightarrow> False)"

definition scenario_bounded :: "int Program" where
  "scenario_bounded = [(counter_lt2, \<lparr>action = increment, priority = PNumber (Finite 0)\<rparr>)]"

text \<open>
  A program that shows the order of evaluation: each action appends its digit to the
  decimal number in the field \<open>log\<close> of the pending state.  The priorities are 5, 1,
  a function returning 3, 1, none, and a function returning \<open>NaN\<close>.
\<close>

definition log_action :: "int \<Rightarrow> int ActivationAction" where
  "log_action i s m =
     (Fresh [''log'' \<mapsto> (case nextState (history m) ''log'' of Some l \<Rightarrow> l * 10 + i | None \<Rightarrow> i)], m)"

definition priority_program :: "int Program" where
  "priority_program =
     [(always, \<lparr>action = log_action 1, priority = PNumber (Finite 5)\<rparr>),
      (always, \<lparr>action = log_action 2, priority = PNumber (Finite 1)\<rparr>),
      (always, \<lparr>action = log_action 3, priority = PExpression (\<lambda>s m. Finite 3)\<rparr>),
      (always, \<lparr>action = log_action 4, priority = PNumber (Finite 1)\<rparr>),
      (always, \<lparr>action = log_action 5, priority = PUndefined\<rparr>),
      (always, \<lparr>action = log_action 6, priority = PExpression (\<lambda>s m. NaN)\<rparr>)]"

text \<open>
  Scenario C of the specification: the first entry rewinds the history by one tick, and
  two entries of lower precedence follow.  \<open>only_rewind\<close> is the rewinding entry alone.
\<close>

definition rewind_one :: "int ActivationAction" where
  "rewind_one s m = (Undefined, m\<lparr>history := rewind (Finite 1) None (history m)\<rparr>)"

definition scenario_C :: "int Program" where
  "scenario_C =
     [(always, \<lparr>action = rewind_one, priority = PNumber (Finite 0)\<rparr>),
      (always, \<lparr>action = increment, priority = PNumber (Finite 1)\<rparr>),
      (always, \<lparr>action = increment, priority = PNumber (Finite 2)\<rparr>)]"

definition only_rewind :: "int Program" where
  "only_rewind = [(always, \<lparr>action = rewind_one, priority = PNumber (Finite 0)\<rparr>)]"

text \<open>
  Scenario B with a third entry, of priority 2, that would set the counter to 100; the
  same program with a halting action that rewinds by one tick before it calls \<open>exit()\<close>;
  and a program whose second action calls \<open>rewind(0)\<close> before the third one halts.
\<close>

definition overwrite :: "int ActivationAction" where
  "overwrite s m = (Fresh [''counter'' \<mapsto> 100], m)"

definition scenario_B_extended :: "int Program" where
  "scenario_B_extended =
     scenario_B @ [(always, \<lparr>action = overwrite, priority = PNumber (Finite 2)\<rparr>)]"

definition rewind_and_halt :: "int ActivationAction" where
  "rewind_and_halt s m = (Undefined, exit None (m\<lparr>history := rewind (Finite 1) None (history m)\<rparr>))"

definition scenario_rewind_halt :: "int Program" where
  "scenario_rewind_halt =
     [(always, \<lparr>action = increment, priority = PNumber (Finite 0)\<rparr>),
      (counter_ge3, \<lparr>action = rewind_and_halt, priority = PNumber (Finite 1)\<rparr>),
      (always, \<lparr>action = overwrite, priority = PNumber (Finite 2)\<rparr>)]"

definition rewind_zero :: "int ActivationAction" where
  "rewind_zero s m = (Undefined, m\<lparr>history := rewind (Finite 0) None (history m)\<rparr>)"

definition scenario_rewind_zero :: "int Program" where
  "scenario_rewind_zero =
     [(always, \<lparr>action = increment, priority = PNumber (Finite 0)\<rparr>),
      (always, \<lparr>action = rewind_zero, priority = PNumber (Finite 1)\<rparr>),
      (always, \<lparr>action = halt, priority = PNumber (Finite 2)\<rparr>)]"

text \<open>The machine of scenario A after two steps, rewound by one.\<close>

definition rewound_machine :: "int StateMachine" where
  "rewound_machine =
     \<lparr>history = \<lparr>maxHistory = Infinity, inputKeys = [], instance_props = (\<lambda>_. 0),
                 initialState_object = (HistoryObject 0, counter_init), inputs = [],
                 records_objects = [(HistoryObject 1, counter_init)],
                 records_minus1 = None, tick = 2,
                 nextState_object = (HistoryObject 5, counter_init),
                 objects_created = 6\<rparr>,
      exitState_object = None, exit_objects_created = 0\<rparr>"

text \<open>The machine of the scenarios after \<open>k\<close> steps, with the next increment staged.\<close>

definition staged_machine :: "nat \<Rightarrow> int StateMachine" where
  "staged_machine k =
     (counter_machine k)\<lparr>history := (history (counter_machine k))
        \<lparr>nextState_object := (HistoryObject (k + 2), [''counter'' \<mapsto> int k + 1])\<rparr>\<rparr>"

text \<open>
  A machine with one input binding: the key \<open>temp\<close> is fed from the property \<open>sensor\<close>
  of the instance (21), doubled by the transform.  The action \<open>tamper\<close> returns a partial
  state of its own that sets \<open>temp\<close> to 0 and the counter to 1.
\<close>

definition sensor_binding :: "int InputMapping" where
  "sensor_binding = \<lparr>key = ''temp'', propertyKey = ''sensor'', transform = Some (\<lambda>inst v. v * 2)\<rparr>"

definition sensor_instance :: "string \<Rightarrow> int" where
  "sensor_instance p = (if p = ''sensor'' then 21 else 0)"

definition sensor_machine :: "int StateMachine" where
  "sensor_machine = StateMachine_new sensor_instance counter_init [sensor_binding]"

definition tamper :: "int ActivationAction" where
  "tamper s m = (Fresh [''temp'' \<mapsto> 0, ''counter'' \<mapsto> 1], m)"

definition tamper_program :: "int Program" where
  "tamper_program = [(always, \<lparr>action = tamper, priority = PNumber (Finite 0)\<rparr>)]"




definition return_pending :: "int ActivationAction" where
  "return_pending s m = (Held NextStateRef, m)"

definition pending_program :: "int Program" where
  "pending_program = [(always, \<lparr>action = return_pending, priority = PNumber (Finite 0)\<rparr>)]"

definition halt_return_state :: "int ActivationAction" where
  "halt_return_state s m = (Held CurrentStateRef, exit None m)"

definition state_program :: "int Program" where
  "state_program = [(always, \<lparr>action = halt_return_state, priority = PNumber (Finite 0)\<rparr>)]"

section \<open>Basic facts\<close>

lemmas history_defs = HistoryManager_new_def nextTick_def beginTick_def collectInputs_def
  input_value_def records_last_def currentState_def currentState_object_def mutateTick_def
  mutateTick_write_def update_contents_def delete_keys_def array_splice_def
  set_records_last_def rewind_def num_le_def

lemmas engine_defs = StateMachine_new_def step_def bootstrap_def sorted_actions_def resolved_entries_def
  array_sort_def by_priority_def entry_priority_def resolve_priority_def or_zero_def
  SortCompare_def stage_def argument_of_def held_object_def exit_def

lemmas scenario_defs = scenario_A_def scenario_B_def counter_machine_def always_def
  increment_def counter_ge3_def halt_def counter_init_def

lemma collectInputs_update [simp]:
  "collectInputs (records_objects_update f h) = collectInputs h"
  "collectInputs (tick_update g h) = collectInputs h"
  "collectInputs (nextState_object_update u h) = collectInputs h"
  "collectInputs (maxHistory_update w h) = collectInputs h"
  "collectInputs (records_minus1_update x h) = collectInputs h"
  "collectInputs (initialState_object_update y h) = collectInputs h"
  "collectInputs (objects_created_update z h) = collectInputs h"
  by (simp_all add: collectInputs_def)

lemma rewind_full_reset:
  assumes "\<not> (num_le n (maxHistory h) \<and> isFinite n)"
  shows "rewind n None h =
    h\<lparr>records_objects := [initialState_object h], tick := 0,
      nextState_object := (HistoryObject (objects_created h), initialState h ++ collectInputs h),
      objects_created := objects_created h + 1\<rparr>"
  using assms by (auto simp add: rewind_def beginTick_def records_last_def Let_def)

subsection \<open>The scenarios, step by step\<close>

lemma machine0_eq: "machine0 = counter_machine 0"
  by (simp add: machine0_def scenario_defs history_defs engine_defs Let_def)

lemma step_scenario_A:
  "step scenario_A (counter_machine k) = (1, counter_machine (Suc k))"
  by (simp add: add.commute scenario_defs history_defs engine_defs Let_def)

lemma step_scenario_B_below:
  "k < 3 \<Longrightarrow> step scenario_B (counter_machine k) = (1, counter_machine (Suc k))"
  by (simp add: add.commute scenario_defs history_defs engine_defs Let_def)

lemma step_scenario_B_from3:
  "3 \<le> k \<Longrightarrow> step scenario_B (counter_machine k) =
     (2, (counter_machine (Suc k))
           \<lparr>exitState_object := Some (HistoryObject (Suc k), [''counter'' \<mapsto> int k])\<rparr>)"
  by (simp add: add.commute scenario_defs history_defs engine_defs Let_def)

lemma step_times_scenario_A: "step_times k scenario_A machine0 = counter_machine k"
  by (induction k) (simp_all add: machine0_eq step_scenario_A)

lemma machine2_eq: "machine2 = counter_machine 2"
  by (simp add: machine2_def step_times_scenario_A)

lemma machine3_eq: "machine3 = counter_machine 3"
  by (simp add: machine3_def step_times_scenario_A)

lemma step_times_scenario_B:
  "k \<le> 3 \<Longrightarrow> step_times k scenario_B machine0 = counter_machine k"
  by (induction k) (simp_all add: machine0_eq step_scenario_B_below)

lemma bootstrap_counter_machine: "bootstrap (counter_machine k) = counter_machine k"
  by (simp add: bootstrap_def counter_machine_def)

lemma currentState_counter_machine:
  "currentState (history (counter_machine k)) = [''counter'' \<mapsto> int k]"
  "currentState (history ((counter_machine k)\<lparr>exitState_object := e\<rparr>)) = [''counter'' \<mapsto> int k]"
  by (simp_all add: counter_machine_def currentState_def currentState_object_def records_last_def)

lemma limited_history_fields:
  "maxHistory limited_history = Finite 2"
  "initialState limited_history = counter_init"
  "map (\<lambda>r. r ''counter'') (records limited_history) = [Some 3, Some 4]"
  "tick limited_history = 5"
  "length (records_objects limited_history) = 2"
  by (simp_all add: limited_history_def step_times_scenario_A counter_machine_def set_limit_def
      array_splice_def Let_def upt_rec)

section \<open>Rewinding\<close>

text \<open>
  Claim C1.  \<open>rewind(n)\<close> without a mutation, for an \<open>n\<close> that is not finite or that
  exceeds the retention limit \<open>_maxHistory\<close>: all records are discarded, the tick counter
  is 0, and the single record left is the initial state, which is then the current state.
  The guard of \<open>rewind\<close> compares \<open>n\<close> with the retention limit, not with the number of
  records held.
\<close>

theorem rewind_past_limit_full_reset:
  assumes "\<not> isFinite n \<or> num_lt (maxHistory h) n"
  shows "records (rewind n None h) = [initialState h] \<and> tick (rewind n None h) = 0
    \<and> currentState (rewind n None h) = initialState h"
proof -
  have "\<not> (num_le n (maxHistory h) \<and> isFinite n)"
    using assms by (auto simp: num_le_def)
  then show ?thesis
    by (simp add: rewind_full_reset currentState_def currentState_object_def records_last_def)
qed

text \<open>
  The theorem at work: a history that retains 2 records under the limit 2, rewound by 3
  and by \<open>Infinity\<close>.
\<close>

theorem rewind_past_limit_full_reset_witness:
  "num_lt (maxHistory limited_history) (Finite 3)
   \<and> length (records limited_history) = 2
   \<and> tick limited_history = 5
   \<and> records (rewind (Finite 3) None limited_history) = [counter_init]
   \<and> tick (rewind (Finite 3) None limited_history) = 0
   \<and> currentState (rewind (Finite 3) None limited_history) = counter_init
   \<and> records (rewind Infinity None limited_history) = [counter_init]
   \<and> tick (rewind Infinity None limited_history) = 0
   \<and> currentState (rewind Infinity None limited_history) = counter_init"
proof -
  have h: "\<not> isFinite (Finite 3) \<or> num_lt (maxHistory limited_history) (Finite 3)"
    by (simp add: limited_history_fields)
  have i: "\<not> isFinite Infinity \<or> num_lt (maxHistory limited_history) Infinity"
    by simp
  show ?thesis
    using rewind_past_limit_full_reset [OF h] rewind_past_limit_full_reset [OF i]
    by (simp add: limited_history_fields)
qed

text \<open>
  With the number of records held in place of the limit, C1 fails.  After two steps of
  scenario A the history holds 3 records under the default limit \<open>Infinity\<close>; \<open>rewind(5)\<close>
  takes the truncating branch, removes nothing and leaves the tick counter at \<open>-2\<close>.
\<close>

theorem rewind_beyond_records_counterexample:
  "length (records (history (step_times 2 scenario_A machine0))) = 3
   \<and> num_lt (Finite 3) (Finite 5)
   \<and> \<not> (records (rewind (Finite 5) None (history (step_times 2 scenario_A machine0)))
           = [initialState (history (step_times 2 scenario_A machine0))]
        \<and> tick (rewind (Finite 5) None (history (step_times 2 scenario_A machine0))) = 0)
   \<and> length (records (rewind (Finite 5) None (history (step_times 2 scenario_A machine0)))) = 3
   \<and> tick (rewind (Finite 5) None (history (step_times 2 scenario_A machine0))) = - 2"
  by (simp add: step_times_scenario_A counter_machine_def rewind_def Let_def num_le_def
      array_splice_def beginTick_def)

text \<open>
  Claim C8, evaluated.  After five commits (the constructor's and four steps of scenario
  A) the tick counter is 5 and five records are held.  \<open>rewind(2)\<close> keeps the two oldest
  records, those of the counter values 0 and 1, and sets the tick counter to 3;
  \<open>rewind(Infinity)\<close> leaves the initial state as the only record and the tick counter
  at 0.
\<close>

theorem rewind_two_after_five_commits:
  "tick (history (step_times 4 scenario_A machine0)) = 5
   \<and> length (records (history (step_times 4 scenario_A machine0))) = 5
   \<and> map (\<lambda>r. r ''counter'')
         (records (rewind (Finite 2) None (history (step_times 4 scenario_A machine0))))
       = [Some 0, Some 1]
   \<and> tick (rewind (Finite 2) None (history (step_times 4 scenario_A machine0))) = 3
   \<and> records (rewind Infinity None (history (step_times 4 scenario_A machine0))) = [counter_init]
   \<and> tick (rewind Infinity None (history (step_times 4 scenario_A machine0))) = 0"
  by (simp add: step_times_scenario_A counter_machine_def rewind_def Let_def num_le_def
      array_splice_def beginTick_def upt_rec)

section \<open>The scenarios\<close>

text \<open>
  Claim C3, as the code has it.  In scenario B the first three calls of \<open>step()\<close> return 1
  and set no exit state.  At the fourth call the counter is 3: the increment (priority 0)
  fires, then the halting entry (priority 1) fires; \<open>step()\<close> returns 2, the exit state is
  \<open>{counter: 3}\<close>, and the committed current state has the counter at 4.
\<close>

theorem scenario_B_fourth_step:
  "fst (step scenario_B (step_times 0 scenario_B machine0)) = 1
   \<and> fst (step scenario_B (step_times 1 scenario_B machine0)) = 1
   \<and> fst (step scenario_B (step_times 2 scenario_B machine0)) = 1
   \<and> exitState (step_times 3 scenario_B machine0) = None
   \<and> currentState (history (step_times 3 scenario_B machine0)) ''counter'' = Some 3
   \<and> fst (step scenario_B (step_times 3 scenario_B machine0)) = 2
   \<and> exitState (snd (step scenario_B (step_times 3 scenario_B machine0)))
       = Some [''counter'' \<mapsto> 3]
   \<and> currentState (history (snd (step scenario_B (step_times 3 scenario_B machine0))))
         ''counter'' = Some 4"
proof -
  have a: "step_times 0 scenario_B machine0 = counter_machine 0"
    using step_times_scenario_B [of 0] by simp
  have b: "step_times 1 scenario_B machine0 = counter_machine 1"
    using step_times_scenario_B [of 1] by simp
  have c: "step_times 2 scenario_B machine0 = counter_machine 2"
    using step_times_scenario_B [of 2] by simp
  have d: "step_times 3 scenario_B machine0 = counter_machine 3"
    using step_times_scenario_B [of 3] by simp
  show ?thesis
    unfolding a b c d
    by (simp add: step_scenario_B_below step_scenario_B_from3 currentState_counter_machine)
      (simp add: counter_machine_def)
qed

text \<open>The fourth call of \<open>step()\<close> in scenario B returns 2, not 1.\<close>

theorem scenario_B_fourth_step_counterexample:
  "fst (step scenario_B (step_times 3 scenario_B machine0)) \<noteq> 1
   \<and> fst (step scenario_B (step_times 3 scenario_B machine0)) = 2"
  by (simp add: step_times_scenario_B step_scenario_B_from3)

section \<open>Resetting\<close>

text \<open>
  Claim C9, as the code has it.  \<open>reset(s)\<close> clears the exit state and rewinds fully: the
  tick counter is 0 and one record is left.  That record is the initial state with \<open>s\<close>
  merged over it, and the pending state is that record with the inputs on top.  The field
  \<open>_initialState\<close> is not assigned: a later \<open>clear()\<close> restores the initial state the
  machine was constructed with.
\<close>

theorem reset_merges_over_initial_state:
  "exitState (reset (Some s) m) = None
   \<and> tick (history (reset (Some s) m)) = 0
   \<and> records (history (reset (Some s) m)) = [initialState (history m) ++ s]
   \<and> currentState (history (reset (Some s) m)) = initialState (history m) ++ s
   \<and> nextState (history (reset (Some s) m)) = (initialState (history m) ++ s) ++ collectInputs (history m)
   \<and> initialState (history (reset (Some s) m)) = initialState (history m)
   \<and> records (clear (history (reset (Some s) m))) = [initialState (history m)]
   \<and> tick (clear (history (reset (Some s) m))) = 0"
  by (simp add: reset_def clear_def rewind_def Let_def num_le_def set_records_last_def
      currentState_def currentState_object_def records_last_def beginTick_def)

text \<open>
  After \<open>reset({a: 5})\<close> on a machine constructed from \<open>{a: 1, b: 2}\<close> the current state
  still has \<open>b\<close>, which a machine constructed from \<open>{a: 5}\<close> has not, and a later
  \<open>clear()\<close> brings back \<open>a = 1\<close>.
\<close>

theorem reset_counterexample:
  "currentState (history (reset (Some a_only) machine_ab)) ''b'' = Some 2
   \<and> currentState (history (StateMachine_new (\<lambda>_. 0) a_only [])) ''b'' = None
   \<and> currentState (clear (history (reset (Some a_only) machine_ab))) ''a'' = Some 1
   \<and> a_only ''a'' = Some 5"
  by (simp add: machine_ab_def ab_init_def a_only_def reset_def clear_def history_defs engine_defs Let_def)

section \<open>Commits, tick counter and retention\<close>

lemma nextTick_tick [simp]: "tick (nextTick h) = tick h + 1"
  by (simp add: nextTick_def beginTick_def Let_def)

lemma nextTick_maxHistory [simp]: "maxHistory (nextTick h) = maxHistory h"
  by (simp add: nextTick_def beginTick_def Let_def)

lemma array_splice_front:
  "array_splice (Finite 0) (Finite d) xs = drop (nat d) xs"
  by (auto simp add: array_splice_def Let_def min_def max_def)

lemma nextTick_records:
  "valid_limit (maxHistory h) \<Longrightarrow>
   records_objects (nextTick h) =
     (case maxHistory h of
        Finite L \<Rightarrow> drop (nat (int (length (records_objects h)) + 1 - L)) (records_objects h @ [nextState_object h])
      | _ \<Rightarrow> records_objects h @ [nextState_object h])"
  by (auto simp add: nextTick_def beginTick_def Let_def valid_limit_def array_splice_front
      add.commute split: number.splits)

lemma nextTick_length:
  "valid_limit (maxHistory h) \<Longrightarrow>
   int (length (records_objects (nextTick h))) =
     (case maxHistory h of
        Finite L \<Rightarrow> min (int (length (records_objects h)) + 1) L
      | _ \<Rightarrow> int (length (records_objects h)) + 1)"
  by (auto simp add: nextTick_records valid_limit_def split: number.splits)

lemma after_commits_Suc: "after_commits (Suc n) h = nextTick (after_commits n h)"
  by (simp add: after_commits_def)

lemma after_commits_tick: "tick (after_commits n h) = tick h + int n"
  by (induction n) (simp_all add: after_commits_Suc, simp add: after_commits_def)

lemma after_commits_maxHistory: "maxHistory (after_commits n h) = maxHistory h"
  by (induction n) (simp_all add: after_commits_Suc, simp add: after_commits_def)

lemma after_commits_length:
  assumes "valid_limit (maxHistory h)"
    and "case maxHistory h of Finite L \<Rightarrow> int (length (records_objects h)) \<le> L | _ \<Rightarrow> True"
  shows "int (length (records_objects (after_commits n h))) =
     (case maxHistory h of
        Finite L \<Rightarrow> min (int (length (records_objects h)) + int n) L
      | _ \<Rightarrow> int (length (records_objects h)) + int n)"
proof (induction n)
  case 0
  then show ?case using assms(2) by (simp add: after_commits_def split: number.splits)
next
  case (Suc n)
  then show ?case using assms(1)
    by (simp add: after_commits_Suc nextTick_length after_commits_maxHistory split: number.splits)
qed

lemma set_limit_valid: "valid_limit (maxHistory (set_limit l h))"
  by (cases l) (simp_all add: set_limit_def Let_def valid_limit_def)

lemma new_fields:
  "tick (HistoryManager_new inst init inps) = 1"
  "length (records_objects (HistoryManager_new inst init inps)) = 1"
  "maxHistory (HistoryManager_new inst init inps) = Infinity"
  by (simp_all add: HistoryManager_new_def nextTick_def beginTick_def Let_def)

lemma set_limit_new_fields:
  "tick (set_limit l (HistoryManager_new inst init inps)) = 1"
  "length (records_objects (set_limit l (HistoryManager_new inst init inps))) = 1"
proof -
  show "tick (set_limit l (HistoryManager_new inst init inps)) = 1"
    by (simp add: set_limit_def Let_def new_fields)
  show "length (records_objects (set_limit l (HistoryManager_new inst init inps))) = 1"
  proof (cases "if num_lt l (Finite 1) then Finite 1 else l")
    case (Finite i)
    then have "1 \<le> i"
      by (cases l) (auto split: if_splits)
    then show ?thesis
      using Finite by (simp add: set_limit_def Let_def new_fields array_splice_front)
  next
    case NegInfinity
    then show ?thesis by (cases l) (auto split: if_splits)
  qed (simp_all add: set_limit_def Let_def new_fields)
qed

lemma clear_fields:
  "tick (clear h) = 0" "records_objects (clear h) = [initialState_object h]" "maxHistory (clear h) = maxHistory h"
  by (simp_all add: clear_def rewind_def Let_def num_le_def beginTick_def)

text \<open>
  Claim C7, as the code has it.  In scenario A every call of \<open>step()\<close> returns 1, and after
  \<open>N\<close> calls the counter is \<open>N\<close>, the tick counter is \<open>N + 1\<close> and \<open>N + 1\<close> records are
  held: the constructor has committed the initial state, so a new machine starts at tick 1.
  In general, \<open>N\<close> commits after the construction of a history (with the limit set once,
  before them) give the tick \<open>N + 1\<close> and \<open>min(N + 1, limit)\<close> records; \<open>N\<close> commits after
  a full reset give the tick \<open>N\<close> and \<open>min(N + 1, limit)\<close> records.
\<close>

theorem scenario_A_ticks_and_records:
  "fst (step scenario_A (step_times N scenario_A machine0)) = 1
   \<and> currentState (history (step_times N scenario_A machine0)) ''counter'' = Some (int N)
   \<and> tick (history (step_times N scenario_A machine0)) = int N + 1
   \<and> length (records (history (step_times N scenario_A machine0))) = N + 1
   \<and> tick (after_commits N (set_limit l (HistoryManager_new inst init inps))) = int N + 1
   \<and> int (length (records (after_commits N (set_limit l (HistoryManager_new inst init inps)))))
       = (case limit (set_limit l (HistoryManager_new inst init inps)) of
            Finite L \<Rightarrow> min (int N + 1) L
          | _ \<Rightarrow> int N + 1)
   \<and> tick (after_commits N (clear (set_limit l (HistoryManager_new inst init inps)))) = int N
   \<and> int (length (records (after_commits N (clear (set_limit l (HistoryManager_new inst init inps))))))
       = (case limit (set_limit l (HistoryManager_new inst init inps)) of
            Finite L \<Rightarrow> min (int N + 1) L
          | _ \<Rightarrow> int N + 1)"
proof -
  let ?h = "set_limit l (HistoryManager_new inst init inps)"
  have v: "valid_limit (maxHistory ?h)"
    by (rule set_limit_valid)
  have b: "case maxHistory ?h of Finite L \<Rightarrow> int (length (records_objects ?h)) \<le> L | _ \<Rightarrow> True"
    using v by (simp add: set_limit_new_fields valid_limit_def split: number.splits)
  have len: "int (length (records_objects (after_commits N ?h)))
       = (case limit ?h of Finite L \<Rightarrow> min (int N + 1) L | _ \<Rightarrow> int N + 1)"
    using after_commits_length [OF v b, of N]
    by (simp add: set_limit_new_fields limit_def add.commute split: number.splits)
  have vc: "valid_limit (maxHistory (clear ?h))"
    using v by (simp add: clear_fields)
  have bc: "case maxHistory (clear ?h) of Finite L \<Rightarrow> int (length (records_objects (clear ?h))) \<le> L | _ \<Rightarrow> True"
    using v by (simp add: clear_fields valid_limit_def split: number.splits)
  have lenc: "int (length (records_objects (after_commits N (clear ?h))))
       = (case limit ?h of Finite L \<Rightarrow> min (int N + 1) L | _ \<Rightarrow> int N + 1)"
    using after_commits_length [OF vc bc, of N]
    by (simp add: clear_fields limit_def add.commute split: number.splits)
  have scen: "fst (step scenario_A (step_times N scenario_A machine0)) = 1
   \<and> currentState (history (step_times N scenario_A machine0)) ''counter'' = Some (int N)
   \<and> tick (history (step_times N scenario_A machine0)) = int N + 1
   \<and> length (records_objects (history (step_times N scenario_A machine0))) = N + 1"
    by (simp add: step_times_scenario_A step_scenario_A currentState_counter_machine)
      (simp add: counter_machine_def)
  show ?thesis
    using scen len lenc
    by (simp add: after_commits_tick set_limit_new_fields clear_fields)
qed

text \<open>After three calls of \<open>step()\<close> in scenario A the tick counter is 4, not 3.\<close>

theorem scenario_A_tick_counterexample:
  "tick (history (step_times 3 scenario_A machine0)) \<noteq> 3
   \<and> tick (history (step_times 3 scenario_A machine0)) = 4"
  by (simp add: step_times_scenario_A counter_machine_def)

section \<open>The run loop\<close>

lemma step_loop_aborted_pos:
  "step_loop t es fired m = Aborted n m' \<Longrightarrow> 1 \<le> n"
  by (induction t es fired m rule: step_loop.induct) (auto split: if_splits prod.splits)

lemma step_zero_sets_exit_object:
  assumes "step prog m = (0, m')"
  shows "exitState_object m' = Some (currentState_object (history m'))"
  using assms step_loop_aborted_pos
  by (fastforce simp add: step_def Let_def split: LoopResult.splits if_splits)

lemma step_zero_sets_exit:
  assumes "step prog m = (0, m')"
  shows "exitState m' = Some (currentState (history m'))"
  using step_zero_sets_exit_object [OF assms] by (simp add: currentState_def)

lemma run_exited: "exitState m \<noteq> None \<Longrightarrow> run fuel prog forever m = Some (run_result m)"
  by (cases fuel) auto

lemma step_times_front: "step_times (Suc n) prog m = step_times n prog (snd (step prog m))"
  by (induction n) simp_all

lemma run_same_flags: "run fuel prog True m = run fuel prog False m"
proof (induction fuel arbitrary: m)
  case 0
  show ?case by simp
next
  case (Suc fuel)
  show ?case
  proof (cases "exitState m = None")
    case False
    then show ?thesis
      using run_exited [of m "Suc fuel" prog True] run_exited [of m "Suc fuel" prog False]
      by (simp del: run.simps)
  next
    case True
    obtain change m' where s: "step prog m = (change, m')"
      by (cases "step prog m")
    show ?thesis
    proof (cases "change = 0")
      case False
      then show ?thesis using True s Suc.IH by simp
    next
      case z: True
      then have "exitState_object m' = Some (currentState_object (history m'))"
        using s step_zero_sets_exit_object by blast
      then have "exitState m' \<noteq> None"
        by simp
      then have "run fuel prog True m' = Some (run_result m')"
        by (rule run_exited)
      then show ?thesis using True s z by simp
    qed
  qed
qed

lemma run_stops_at_zero:
  assumes "exitState m = None" and "fst (step prog m) = 0"
  shows "run (Suc fuel) prog forever m = Some (currentState (history (snd (step prog m))))"
proof -
  obtain m' where s: "step prog m = (0, m')"
    using assms(2) by (cases "step prog m") auto
  then have e: "exitState_object m' = Some (currentState_object (history m'))"
    using step_zero_sets_exit_object by blast
  then have r: "run_result m' = currentState (history m')"
    by (simp add: run_result_def currentState_def)
  have "exitState m' \<noteq> None"
    using e by simp
  then have "run fuel prog forever m' = Some (run_result m')"
    by (rule run_exited)
  then show ?thesis
    using assms(1) s r by (cases forever) simp_all
qed

lemma run_first_quiescent_tick:
  assumes "\<forall>i<k. exitState (step_times i prog m) = None \<and> fst (step prog (step_times i prog m)) \<noteq> 0"
    and "exitState (step_times k prog m) = None"
    and "fst (step prog (step_times k prog m)) = 0"
  shows "run (Suc k + fuel) prog forever m = Some (currentState (history (step_times (Suc k) prog m)))"
  using assms
proof (induction k arbitrary: m)
  case 0
  then show ?case using run_stops_at_zero [of m prog fuel forever] by simp
next
  case (Suc k)
  let ?m' = "snd (step prog m)"
  have first: "exitState m = None \<and> fst (step prog m) \<noteq> 0"
    using Suc.prems(1) by fastforce
  have rest: "\<forall>i<k. exitState (step_times i prog ?m') = None
      \<and> fst (step prog (step_times i prog ?m')) \<noteq> 0"
  proof (intro allI impI)
    fix i assume "i < k"
    then have "Suc i < Suc k" by simp
    then show "exitState (step_times i prog ?m') = None
      \<and> fst (step prog (step_times i prog ?m')) \<noteq> 0"
      using Suc.prems(1) step_times_front [of i prog m] by metis
  qed
  have ih: "run (Suc k + fuel) prog forever ?m'
      = Some (currentState (history (step_times (Suc k) prog ?m')))"
    using Suc.IH [OF rest] Suc.prems(2,3) step_times_front [of k prog m] by simp
  have "run (Suc (Suc k) + fuel) prog forever m = run (Suc k + fuel) prog forever ?m'"
    using first by (cases "step prog m") simp
  then show ?case
    using ih step_times_front [of "Suc k" prog m] by simp
qed

lemma step_scenario_bounded_below:
  "k < 2 \<Longrightarrow> step scenario_bounded (counter_machine k) = (1, counter_machine (Suc k))"
  by (simp add: add.commute scenario_bounded_def counter_lt2_def scenario_defs history_defs
      engine_defs Let_def)

lemma step_scenario_bounded_from2:
  "2 \<le> k \<Longrightarrow> fst (step scenario_bounded (counter_machine k)) = 0"
  "2 \<le> k \<Longrightarrow> currentState (history (snd (step scenario_bounded (counter_machine k))))
     = [''counter'' \<mapsto> int k]"
  by (simp_all add: scenario_bounded_def counter_lt2_def scenario_defs history_defs
      engine_defs Let_def)

lemma step_times_scenario_bounded:
  "k \<le> 2 \<Longrightarrow> step_times k scenario_bounded machine0 = counter_machine k"
  by (induction k) (simp_all add: machine0_eq step_scenario_bounded_below)

text \<open>
  Claim C2.  With the same bound on the number of iterations, \<open>run(true)\<close> and
  \<open>run(false)\<close> give the same result from every machine and program: both end or neither
  does, and they return the same state.  The reason is that a call of \<open>step()\<close> that
  returns 0 has set the exit state, to the state it committed.  And when the first \<open>k\<close>
  calls of \<open>step()\<close> fire actions and leave no exit state, and the next call fires none,
  then \<open>run\<close> ends with that call, whatever the flag, and returns the state committed by
  it.
\<close>

theorem run_forever_flag_irrelevant:
  "run fuel prog True m = run fuel prog False m
   \<and> (fst (step prog m) = 0 \<longrightarrow>
        exitState (snd (step prog m)) = Some (currentState (history (snd (step prog m)))))
   \<and> ((\<forall>i<k. exitState (step_times i prog m) = None \<and> fst (step prog (step_times i prog m)) \<noteq> 0)
        \<and> exitState (step_times k prog m) = None
        \<and> fst (step prog (step_times k prog m)) = 0
      \<longrightarrow> run (Suc k + fuel) prog forever m
            = Some (currentState (history (step_times (Suc k) prog m))))"
proof (intro conjI impI)
  show "run fuel prog True m = run fuel prog False m"
    by (rule run_same_flags)
next
  assume "fst (step prog m) = 0"
  then have "step prog m = (0, snd (step prog m))"
    by (cases "step prog m") simp
  then show "exitState (snd (step prog m)) = Some (currentState (history (snd (step prog m))))"
    by (rule step_zero_sets_exit)
next
  assume a: "(\<forall>i<k. exitState (step_times i prog m) = None \<and> fst (step prog (step_times i prog m)) \<noteq> 0)
        \<and> exitState (step_times k prog m) = None
        \<and> fst (step prog (step_times k prog m)) = 0"
  show "run (Suc k + fuel) prog forever m
            = Some (currentState (history (step_times (Suc k) prog m)))"
    by (rule run_first_quiescent_tick [OF conjunct1 [OF a] conjunct1 [OF conjunct2 [OF a]]
          conjunct2 [OF conjunct2 [OF a]]])
qed

text \<open>
  The theorem at work: the bounded increment fires twice and is quiescent at the third
  tick, where both \<open>run(true)\<close> and \<open>run(false)\<close> return \<open>{counter: 2}\<close>.
\<close>

theorem run_forever_flag_irrelevant_witness:
  "exitState (step_times 0 scenario_bounded machine0) = None
   \<and> fst (step scenario_bounded (step_times 0 scenario_bounded machine0)) = 1
   \<and> exitState (step_times 1 scenario_bounded machine0) = None
   \<and> fst (step scenario_bounded (step_times 1 scenario_bounded machine0)) = 1
   \<and> exitState (step_times 2 scenario_bounded machine0) = None
   \<and> fst (step scenario_bounded (step_times 2 scenario_bounded machine0)) = 0
   \<and> run 3 scenario_bounded True machine0 = Some [''counter'' \<mapsto> 2]
   \<and> run 3 scenario_bounded False machine0 = Some [''counter'' \<mapsto> 2]"
proof -
  have t: "step_times 0 scenario_bounded machine0 = counter_machine 0"
    "step_times 1 scenario_bounded machine0 = counter_machine 1"
    "step_times 2 scenario_bounded machine0 = counter_machine 2"
    using step_times_scenario_bounded [of 0] step_times_scenario_bounded [of 1]
      step_times_scenario_bounded [of 2] by simp_all
  have e: "exitState (counter_machine j) = None" for j
    by (simp add: counter_machine_def)
  have facts: "exitState (step_times 0 scenario_bounded machine0) = None
   \<and> fst (step scenario_bounded (step_times 0 scenario_bounded machine0)) = 1
   \<and> exitState (step_times 1 scenario_bounded machine0) = None
   \<and> fst (step scenario_bounded (step_times 1 scenario_bounded machine0)) = 1
   \<and> exitState (step_times 2 scenario_bounded machine0) = None
   \<and> fst (step scenario_bounded (step_times 2 scenario_bounded machine0)) = 0"
    unfolding t by (simp add: e step_scenario_bounded_below step_scenario_bounded_from2)
  then have prefix: "\<forall>i<2. exitState (step_times i scenario_bounded machine0) = None
      \<and> fst (step scenario_bounded (step_times i scenario_bounded machine0)) \<noteq> 0"
    by (simp add: less_2_cases_iff)
  have "step_times (Suc 2) scenario_bounded machine0
      = snd (step scenario_bounded (step_times 2 scenario_bounded machine0))"
    by (rule step_times.simps)
  then have final: "currentState (history (step_times (Suc 2) scenario_bounded machine0))
      = [''counter'' \<mapsto> 2]"
    unfolding t by (simp add: step_scenario_bounded_from2)
  have "run (Suc 2 + 0) scenario_bounded forever machine0 = Some [''counter'' \<mapsto> 2]" for forever
    using run_forever_flag_irrelevant [of 0 scenario_bounded machine0 2 forever] prefix facts final
    by simp
  then have "run 3 scenario_bounded forever machine0 = Some [''counter'' \<mapsto> 2]" for forever
    by (simp add: numeral_3_eq_3 del: run.simps)
  then show ?thesis
    using facts by blast
qed

section \<open>The order of evaluation within a tick\<close>

lemma resolve_priority_not_NaN: "resolve_priority p s m \<noteq> NaN"
  by (cases p) (simp_all add: resolve_priority_def or_zero_def)

lemma num_lt_irrefl: "\<not> num_lt a a"
  by (cases a) simp_all

lemma num_lt_trans: "num_lt a b \<Longrightarrow> num_lt b c \<Longrightarrow> num_lt a c"
  by (cases a; cases b; cases c) simp_all

lemma num_lt_linear: "a \<noteq> NaN \<Longrightarrow> b \<noteq> NaN \<Longrightarrow> num_lt a b \<or> a = b \<or> num_lt b a"
  by (cases a; cases b) auto

lemma num_lt_imp_le: "num_lt a b \<Longrightarrow> num_le a b"
  by (cases a; cases b) (simp_all add: num_le_def)

lemma num_le_trans: "num_le a b \<Longrightarrow> num_le b c \<Longrightarrow> num_le a c"
  by (cases a; cases b; cases c) (simp_all add: num_le_def)

lemma positive_difference:
  "a \<noteq> NaN \<Longrightarrow> b \<noteq> NaN \<Longrightarrow>
   num_lt (Finite 0) (let v = num_sub a b in if v = NaN then Finite 0 else v) = num_lt b a"
  by (cases a; cases b) (simp_all add: Let_def)

lemma sort_insert_step:
  assumes "entry_priority x \<noteq> NaN" and "entry_priority y \<noteq> NaN"
  shows "sort_insert by_priority x (y # ys) =
     (if num_lt (entry_priority y) (entry_priority x) then y # sort_insert by_priority x ys
      else x # y # ys)"
  using positive_difference [OF assms]
  by (simp add: SortCompare_def by_priority_def)

lemma set_sort_insert: "set (sort_insert c x ys) = insert x (set ys)"
  by (induction ys) auto

lemma set_array_sort: "set (array_sort c xs) = set xs"
  by (induction xs) (simp_all add: array_sort_def set_sort_insert)

lemma length_sort_insert: "length (sort_insert c x ys) = Suc (length ys)"
  by (induction ys) auto

lemma sorted_sort_insert:
  assumes "entry_priority x \<noteq> NaN" and "\<forall>y\<in>set ys. entry_priority y \<noteq> NaN"
    and "sorted_wrt (\<lambda>e1 e2. num_le (entry_priority e1) (entry_priority e2)) ys"
  shows "sorted_wrt (\<lambda>e1 e2. num_le (entry_priority e1) (entry_priority e2))
           (sort_insert by_priority x ys)"
  using assms
proof (induction ys)
  case Nil
  then show ?case by simp
next
  case (Cons y ys)
  show ?case
  proof (cases "num_lt (entry_priority y) (entry_priority x)")
    case True
    then have le: "num_le (entry_priority y) (entry_priority x)"
      by (rule num_lt_imp_le)
    have eq: "sort_insert by_priority x (y # ys) = y # sort_insert by_priority x ys"
      using Cons.prems True by (simp add: sort_insert_step del: sort_insert.simps)
    show ?thesis
      unfolding eq using Cons le by (auto simp add: set_sort_insert)
  next
    case False
    then have le: "num_le (entry_priority x) (entry_priority y)"
      using Cons.prems by (simp add: num_le_def)
    then have all: "\<forall>z\<in>set ys. num_le (entry_priority x) (entry_priority z)"
      using Cons.prems(3) num_le_trans by fastforce
    have eq: "sort_insert by_priority x (y # ys) = x # y # ys"
      using Cons.prems False by (simp add: sort_insert_step del: sort_insert.simps)
    show ?thesis
      unfolding eq using Cons.prems(3) le all by simp
  qed
qed

lemma filter_sort_insert:
  assumes "entry_priority x \<noteq> NaN" and "\<forall>y\<in>set ys. entry_priority y \<noteq> NaN"
  shows "filter (\<lambda>e. entry_priority e = p) (sort_insert by_priority x ys) =
         filter (\<lambda>e. entry_priority e = p) (x # ys)"
  using assms
proof (induction ys)
  case Nil
  then show ?case by simp
next
  case (Cons y ys)
  show ?case
  proof (cases "num_lt (entry_priority y) (entry_priority x)")
    case True
    then have ne: "entry_priority y \<noteq> entry_priority x"
      using num_lt_irrefl by metis
    have eq: "sort_insert by_priority x (y # ys) = y # sort_insert by_priority x ys"
      using Cons.prems True by (simp add: sort_insert_step del: sort_insert.simps)
    show ?thesis
      unfolding eq using Cons ne by auto
  next
    case False
    have eq: "sort_insert by_priority x (y # ys) = x # y # ys"
      using Cons.prems False by (simp add: sort_insert_step del: sort_insert.simps)
    show ?thesis
      unfolding eq by simp
  qed
qed

lemma array_sort_by_priority:
  assumes "\<forall>y\<in>set xs. entry_priority y \<noteq> NaN"
  shows "sorted_wrt (\<lambda>e1 e2. num_le (entry_priority e1) (entry_priority e2))
           (array_sort by_priority xs)
       \<and> filter (\<lambda>e. entry_priority e = p) (array_sort by_priority xs) =
         filter (\<lambda>e. entry_priority e = p) xs"
  using assms
proof (induction xs)
  case Nil
  then show ?case by (simp add: array_sort_def)
next
  case (Cons x xs)
  have s: "array_sort by_priority (x # xs) = sort_insert by_priority x (array_sort by_priority xs)"
    by (simp add: array_sort_def)
  have n: "\<forall>y\<in>set (array_sort by_priority xs). entry_priority y \<noteq> NaN"
    using Cons.prems by (simp add: set_array_sort)
  show ?case
    unfolding s using Cons n
    by (simp add: sorted_sort_insert filter_sort_insert)
qed

lemma resolved_entries_not_NaN:
  "\<forall>y\<in>set (resolved_entries prog m). entry_priority y \<noteq> NaN"
  by (auto simp add: resolved_entries_def entry_priority_def resolve_priority_not_NaN)

lemma step_loop_exited:
  "exitState m \<noteq> None \<Longrightarrow> step_loop t es fired m = Completed fired m"
  by (cases es) auto

lemma step_loop_append:
  "step_loop t (xs @ ys) fired m =
     (case step_loop t xs fired m of
        Aborted n m' \<Rightarrow> Aborted n m'
      | Completed fired' m' \<Rightarrow> step_loop t ys fired' m')"
proof (induction t xs fired m rule: step_loop.induct)
  case (1 currentTick fired m)
  show ?case by simp
next
  case (2 currentTick cond act p rest fired m)
  show ?case
  proof (cases "tick (history m) \<noteq> currentTick \<and> exitState m = None")
    case True
    then show ?thesis by simp
  next
    case notabort: False
    show ?thesis
    proof (cases "exitState m = None")
      case False
      then show ?thesis
        using notabort step_loop_exited [of m currentTick ys fired] by auto
    next
      case True
      show ?thesis
      proof (cases "cond (currentState (history m)) m")
        case False
        then show ?thesis using notabort True 2(2) by simp
      next
        case c: True
        obtain q m' where a: "act (currentState (history m)) m = (q, m')"
          by (cases "act (currentState (history m)) m")
        have e: "\<not> exitState m \<noteq> None"
          using True by simp
        show ?thesis
          using notabort True c a 2(1) [OF notabort e c a [symmetric]] by simp
      qed
    qed
  qed
qed

lemma visit_entry_simps:
  "visit_entry t (Iterating fired m) (cond, act, p) =
     (if tick (history m) \<noteq> t \<and> exitState m = None then AbortedAt (max 1 fired) m
      else if exitState m \<noteq> None then StoppedAt fired m
      else if cond (currentState (history m)) m
      then Iterating (fired + 1)
             (stage (fst (act (currentState (history m)) m))
                (snd (act (currentState (history m)) m)))
      else Iterating fired m)"
  "visit_entry t (AbortedAt n m) e = AbortedAt n m"
  "visit_entry t (StoppedAt n m) e = StoppedAt n m"
  by (simp_all add: visit_entry_def)

lemma iteration_ended:
  "foldl (visit_entry t) (AbortedAt n m) es = AbortedAt n m"
  "foldl (visit_entry t) (StoppedAt n m) es = StoppedAt n m"
  by (induction es) (simp_all add: visit_entry_simps)

lemma step_loop_iteration:
  "(case step_loop t es fired m of
      Aborted n m1 \<Rightarrow> (n, m1)
    | Completed firedCount m1 \<Rightarrow> commit_tick firedCount m1)
   = finish_tick (foldl (visit_entry t) (Iterating fired m) es)"
proof (induction t es fired m rule: step_loop.induct)
  case (1 currentTick fired m)
  show ?case by (simp add: finish_tick_def)
next
  case (2 currentTick cond act p rest fired m)
  show ?case
  proof (cases "tick (history m) \<noteq> currentTick \<and> exitState m = None")
    case True
    then show ?thesis
      by (simp add: visit_entry_simps iteration_ended finish_tick_def)
  next
    case notabort: False
    show ?thesis
    proof (cases "exitState m = None")
      case False
      then show ?thesis
        using notabort by (auto simp add: visit_entry_simps iteration_ended finish_tick_def)
    next
      case True
      show ?thesis
      proof (cases "cond (currentState (history m)) m")
        case False
        then show ?thesis
          using notabort True 2(2) by (simp add: visit_entry_simps)
      next
        case c: True
        obtain q m' where a: "act (currentState (history m)) m = (q, m')"
          by (cases "act (currentState (history m)) m")
        have e: "\<not> exitState m \<noteq> None"
          using True by simp
        show ?thesis
          using notabort True c a 2(1) [OF notabort e c a [symmetric]]
          by (simp add: visit_entry_simps)
      qed
    qed
  qed
qed

lemma step_iteration:
  "step prog m = finish_tick (iterate_in_order (tick (history (bootstrap m)))
      (sorted_actions prog (bootstrap m)) (bootstrap m))"
proof -
  let ?m0 = "bootstrap m"
  have "step prog m =
      (case step_loop (tick (history ?m0)) (sorted_actions prog ?m0) 0 ?m0 of
         Aborted n m1 \<Rightarrow> (n, m1)
       | Completed firedCount m1 \<Rightarrow> commit_tick firedCount m1)"
    by (simp add: step_def commit_tick_def Let_def split: LoopResult.splits)
  then show ?thesis
    by (simp only: step_loop_iteration iterate_in_order_def)
qed

text \<open>
  Claim C5.  The array \<open>actions\<close> of \<open>step\<close> is ascending in the resolved priorities,
  and the entries of any one priority stand in it in their registration order.  It holds
  the conditions and actions of the program; the priorities are resolved against the
  state and machine the tick starts with, a function form by calling it, and a result of
  0 or \<open>NaN\<close>, like a missing priority, counts as 0.  And \<open>step\<close> evaluates the entries
  in the order of that array: its result is the result of visiting the entries of the
  sorted array one after the other, from the first to the last, on the machine the tick
  starts with, followed by the commit unless the visits ended with the abort.  (A
  function has no call count in this model, so that the function form is called once is
  not stated.)
\<close>

theorem step_order_ascending_and_stable:
  "sorted_wrt (\<lambda>e1 e2. num_le (entry_priority e1) (entry_priority e2)) (sorted_actions prog m)
   \<and> (\<forall>p. filter (\<lambda>e. entry_priority e = p) (sorted_actions prog m)
          = filter (\<lambda>e. entry_priority e = p) (resolved_entries prog m))
   \<and> map (\<lambda>(cond, act, p). (cond, act)) (resolved_entries prog m)
       = map (\<lambda>(cond, entry). (cond, action entry)) prog
   \<and> map entry_priority (resolved_entries prog m)
       = map (\<lambda>(cond, entry). resolve_priority (priority entry) (currentState (history m)) m) prog
   \<and> resolve_priority (PExpression f) s m = (if f s m = NaN \<or> f s m = Finite 0 then Finite 0 else f s m)
   \<and> resolve_priority (PNumber n) s m = (if n = NaN \<or> n = Finite 0 then Finite 0 else n)
   \<and> resolve_priority PUndefined s m = Finite 0
   \<and> step prog m =
       finish_tick (iterate_in_order (tick (history (bootstrap m)))
         (sorted_actions prog (bootstrap m)) (bootstrap m))"
proof -
  have order: "sorted_wrt (\<lambda>e1 e2. num_le (entry_priority e1) (entry_priority e2))
           (sorted_actions prog m)
       \<and> (\<forall>p. filter (\<lambda>e. entry_priority e = p) (sorted_actions prog m)
              = filter (\<lambda>e. entry_priority e = p) (resolved_entries prog m))"
    using array_sort_by_priority [OF resolved_entries_not_NaN, of prog m]
    by (simp add: sorted_actions_def)
  have entries: "map (\<lambda>(cond, act, p). (cond, act)) (resolved_entries prog m)
       = map (\<lambda>(cond, entry). (cond, action entry)) prog
     \<and> map entry_priority (resolved_entries prog m)
       = map (\<lambda>(cond, entry). resolve_priority (priority entry) (currentState (history m)) m) prog"
    by (auto simp add: resolved_entries_def entry_priority_def)
  have norm: "resolve_priority (PExpression f) s m
         = (if f s m = NaN \<or> f s m = Finite 0 then Finite 0 else f s m)
     \<and> resolve_priority (PNumber n) s m = (if n = NaN \<or> n = Finite 0 then Finite 0 else n)
     \<and> resolve_priority PUndefined s m = Finite 0"
    by (simp add: resolve_priority_def or_zero_def)
  show ?thesis
    using order entries norm step_iteration [of prog m] by blast
qed

text \<open>
  The order at work on a new machine, where each action appends its digit to the field
  \<open>log\<close>: the entries run in the order 5, 6 (priority 0), 2, 4 (priority 1), 3, 1.
\<close>

theorem step_order_ascending_and_stable_witness:
  "map entry_priority (sorted_actions priority_program machine0)
     = [Finite 0, Finite 0, Finite 1, Finite 1, Finite 3, Finite 5]
   \<and> map entry_priority (resolved_entries priority_program machine0)
     = [Finite 5, Finite 1, Finite 3, Finite 1, Finite 0, Finite 0]
   \<and> fst (step priority_program machine0) = 6
   \<and> currentState (history (snd (step priority_program machine0))) ''log'' = Some 562431"
proof -
  have b: "bootstrap machine0 = machine0"
    by (simp add: machine0_eq bootstrap_counter_machine)
  have s: "step priority_program machine0 =
      finish_tick (iterate_in_order (tick (history machine0))
        (sorted_actions priority_program machine0) machine0)"
    using step_order_ascending_and_stable [of priority_program machine0] b by simp
  have l: "sorted_actions priority_program machine0 =
      [(always, log_action 5, Finite 0), (always, log_action 6, Finite 0),
       (always, log_action 2, Finite 1), (always, log_action 4, Finite 1),
       (always, log_action 3, Finite 3), (always, log_action 1, Finite 5)]"
    by (simp add: priority_program_def sorted_actions_def resolved_entries_def array_sort_def
        by_priority_def entry_priority_def resolve_priority_def or_zero_def SortCompare_def Let_def)
  have r: "map entry_priority (resolved_entries priority_program machine0)
     = [Finite 5, Finite 1, Finite 3, Finite 1, Finite 0, Finite 0]"
    by (simp add: priority_program_def resolved_entries_def entry_priority_def
        resolve_priority_def or_zero_def)
  show ?thesis
    unfolding s l r
    by (simp add: machine0_eq entry_priority_def iterate_in_order_def visit_entry_simps
        finish_tick_def commit_tick_def log_action_def scenario_defs history_defs stage_def
        argument_of_def Let_def)
qed

section \<open>Rewinding and exiting in the middle of a tick\<close>

lemma mutateTick_fields [simp]:
  "tick (mutateTick p h) = tick h"
  "maxHistory (mutateTick p h) = maxHistory h"
  "inputKeys (mutateTick p h) = inputKeys h"
  "inputs (mutateTick p h) = inputs h"
  "instance_props (mutateTick p h) = instance_props h"
  "objects_created (mutateTick p h) = objects_created h"
  by (simp_all add: mutateTick_def)

lemma stage_fields [simp]:
  "tick (history (stage q m)) = tick (history m)"
  "maxHistory (history (stage q m)) = maxHistory (history m)"
  "inputKeys (history (stage q m)) = inputKeys (history m)"
  "inputs (history (stage q m)) = inputs (history m)"
  "instance_props (history (stage q m)) = instance_props (history m)"
  "(exitState_object (stage q m) = None) = (exitState_object m = None)"
  by (simp_all add: stage_def split: option.splits)

lemma stage_Undefined [simp]: "stage Undefined m = m"
  by (simp add: stage_def argument_of_def)

lemma currentState_object_nextTick:
  assumes "valid_limit (maxHistory h)"
  shows "currentState_object (nextTick h) = nextState_object h"
proof -
  have "records_objects (nextTick h) \<noteq> [] \<and> last (records_objects (nextTick h)) = nextState_object h"
    using assms
    by (auto simp add: nextTick_records valid_limit_def split: number.splits)
  then show ?thesis
    by (simp add: currentState_object_def records_last_def)
qed

lemma currentState_nextTick:
  assumes "valid_limit (maxHistory h)"
  shows "currentState (nextTick h) = nextState h"
  by (simp add: currentState_def currentState_object_nextTick [OF assms])

lemma rewind_one_counter_machine2:
  "rewind_one s (counter_machine 2) = (Undefined, rewound_machine)"
  by (simp add: rewind_one_def rewound_machine_def counter_machine_def counter_init_def rewind_def
      num_le_def array_splice_def beginTick_def records_last_def collectInputs_def Let_def upt_rec)

lemma sorted_actions_scenario_C:
  "sorted_actions scenario_C m =
     [] @ (always, rewind_one, Finite 0) # (always, increment, Finite 1) # [(always, increment, Finite 2)]"
  by (simp add: scenario_C_def engine_defs Let_def)

text \<open>
  The rewind check stands at the head of each iteration of the loop, and the tick starts
  on the machine \<open>bootstrap m\<close>.  Let the entries before some entry complete with
  \<open>fired\<close> firings, no exit state and the tick counter still at its value from the start
  of the tick; let that entry fire and leave a different tick counter and no exit state;
  and let at least one entry remain after it.  Then \<open>step\<close> returns at once: no further
  entry is evaluated, nothing is committed (the machine is the one the action left, with
  what it returned staged), and the result is \<open>max(1, fired + 1)\<close>, which is not 0.
\<close>

lemma rewind_mid_tick_aborts:
  assumes "sorted_actions prog (bootstrap m) = pre @ (cond, act, p) # next_entry # post"
    and "step_loop (tick (history (bootstrap m))) pre 0 (bootstrap m) = Completed fired m1"
    and "exitState m1 = None" and "tick (history m1) = tick (history (bootstrap m))"
    and "cond (currentState (history m1)) m1"
    and "act (currentState (history m1)) m1 = (newState, m2)"
    and "tick (history m2) \<noteq> tick (history (bootstrap m))" and "exitState m2 = None"
  shows "step prog m = (max 1 (fired + 1), stage newState m2) \<and> fst (step prog m) \<noteq> 0"
proof -
  let ?t = "tick (history (bootstrap m))"
  obtain c' a' p' where n: "next_entry = (c', a', p')"
    by (cases next_entry)
  have "step_loop ?t ((cond, act, p) # next_entry # post) fired m1
      = step_loop ?t (next_entry # post) (fired + 1) (stage newState m2)"
    using assms(3-6) by simp
  also have "\<dots> = Aborted (max 1 (fired + 1)) (stage newState m2)"
    using assms(7,8) by (simp add: n)
  finally have "step_loop ?t (sorted_actions prog (bootstrap m)) 0 (bootstrap m)
      = Aborted (max 1 (fired + 1)) (stage newState m2)"
    using assms(1,2) by (simp add: step_loop_append)
  then have "step prog m = (max 1 (fired + 1), stage newState m2)"
    by (simp add: step_def Let_def)
  then show ?thesis by simp
qed

text \<open>
  Scenario C, run on the machine of scenario A after two steps (tick 3, three records):
  the rewinding entry fires, the two increments are skipped, \<open>step\<close> returns 1 and
  leaves the rewound machine, with one record and the tick counter at 2.
\<close>

lemma scenario_C_aborts:
  "tick (history machine2) = 3
   \<and> rewind_one (currentState (history machine2)) machine2 = (Undefined, rewound_machine)
   \<and> tick (history rewound_machine) = 2
   \<and> length (records (history rewound_machine)) = 1
   \<and> step scenario_C machine2 = (1, rewound_machine)"
proof -
  let ?m = "counter_machine 2"
  have b: "bootstrap ?m = ?m"
    by (rule bootstrap_counter_machine)
  have t: "tick (history ?m) = 3"
    by (simp add: counter_machine_def)
  have l: "step_loop (tick (history (bootstrap ?m))) [] 0 (bootstrap ?m) = Completed 0 ?m"
    by (simp add: b)
  have e: "exitState ?m = None"
    by (simp add: counter_machine_def)
  have u: "tick (history ?m) = tick (history (bootstrap ?m))"
    by (simp add: b)
  have c: "always (currentState (history ?m)) ?m"
    by (simp add: always_def)
  have r: "tick (history rewound_machine) \<noteq> tick (history (bootstrap ?m))"
    by (simp only: b) (simp add: rewound_machine_def counter_machine_def)
  have x: "exitState rewound_machine = None"
    by (simp add: rewound_machine_def)
  have "step scenario_C ?m = (max 1 (0 + 1), stage Undefined rewound_machine)"
    using rewind_mid_tick_aborts [OF sorted_actions_scenario_C l e u c
        rewind_one_counter_machine2 r x]
    by simp
  then show ?thesis
    unfolding machine2_eq
    using t rewind_one_counter_machine2
    by simp (simp add: rewound_machine_def)
qed

text \<open>
  Claim C6, evaluated where the rewinding entry is the last one of the array.  The program
  is the rewinding entry alone, on the machine of scenario A after two steps.  The action
  rewinds by one: it leaves one record and the tick counter at 2, different from the 3 of
  the tick's start, and no exit state.  No check follows the last entry: the loop ends and
  \<open>step\<close> commits, so that it returns 1 with two records and the tick counter at 3, and
  not the machine that the rewind left.
\<close>

theorem rewind_by_last_entry_commits:
  "always (currentState (history machine2)) machine2
   \<and> rewind_one (currentState (history machine2)) machine2 = (Undefined, rewound_machine)
   \<and> tick (history machine2) = 3
   \<and> tick (history rewound_machine) = 2
   \<and> exitState rewound_machine = None
   \<and> length (records (history rewound_machine)) = 1
   \<and> fst (step only_rewind machine2) = 1
   \<and> length (records (history (snd (step only_rewind machine2)))) = 2
   \<and> tick (history (snd (step only_rewind machine2))) = 3
   \<and> snd (step only_rewind machine2) \<noteq> rewound_machine"
proof -
  have s: "step only_rewind (counter_machine 2)
      = (1, rewound_machine\<lparr>history := nextTick (history rewound_machine)\<rparr>)"
    by (simp add: only_rewind_def step_def bootstrap_counter_machine sorted_actions_def
        resolved_entries_def array_sort_def resolve_priority_def or_zero_def always_def
        rewind_one_counter_machine2 Let_def)
      (simp add: counter_machine_def)
  have n: "length (records_objects (nextTick (history rewound_machine))) = 2"
    "tick (nextTick (history rewound_machine)) = 3"
    by (simp_all add: rewound_machine_def nextTick_def beginTick_def Let_def)
  have d: "rewound_machine\<lparr>history := nextTick (history rewound_machine)\<rparr> \<noteq> rewound_machine"
  proof
    assume "rewound_machine\<lparr>history := nextTick (history rewound_machine)\<rparr> = rewound_machine"
    then have "tick (history (rewound_machine\<lparr>history := nextTick (history rewound_machine)\<rparr>))
        = tick (history rewound_machine)"
      by simp
    then show False
      by (simp add: rewound_machine_def)
  qed
  show ?thesis
    unfolding machine2_eq
    using s n d rewind_one_counter_machine2
    by (simp add: always_def) (simp add: rewound_machine_def counter_machine_def)
qed

lemma sorted_actions_scenario_B_extended:
  "sorted_actions scenario_B_extended m =
     [(always, increment, Finite 0)] @ (counter_ge3, halt, Finite 1) # [(always, overwrite, Finite 2)]"
  by (simp add: scenario_B_extended_def scenario_B_def scenario_A_def engine_defs Let_def)

lemma staged_machine_facts:
  "step_loop (tick (history (counter_machine k))) [(always, increment, Finite 0)] 0 (counter_machine k)
     = Completed 1 (staged_machine k)"
  "exitState (staged_machine k) = None"
  "tick (history (staged_machine k)) = tick (history (counter_machine k))"
  "currentState (history (staged_machine k)) = [''counter'' \<mapsto> int k]"
  "nextState (history (staged_machine k)) = [''counter'' \<mapsto> int k + 1]"
  "maxHistory (history (staged_machine k)) = Infinity"
  "1 \<le> tick (history (counter_machine k))"
  by (simp_all add: staged_machine_def scenario_defs stage_def argument_of_def mutateTick_def
      mutateTick_write_def update_contents_def delete_keys_def currentState_def
      currentState_object_def records_last_def)

lemma nextState_stage_Fresh:
  "nextState (history (stage (Fresh q) m))
     = nextState (history m) ++ delete_keys (inputKeys (history m)) q"
  by (simp add: stage_def argument_of_def mutateTick_def mutateTick_write_def update_contents_def)

lemma stage_Fresh_exit_object:
  assumes "map_option fst (exitState_object m) \<noteq> Some (fst (nextState_object (history m)))"
  shows "exitState_object (stage (Fresh q) m) = exitState_object m"
proof (cases "exitState_object m")
  case None
  then show ?thesis
    by (simp add: stage_def argument_of_def)
next
  case (Some ob)
  then have "fst ob \<noteq> fst (nextState_object (history m))"
    using assms by simp
  then have "mutateTick_write (None, q) (history m) ob = ob"
    by (simp add: mutateTick_write_def update_contents_def)
  then show ?thesis
    using Some by (simp add: stage_def argument_of_def)
qed

lemma exit_fields [simp]:
  "history (exit e m) = history m"
  "exitState_object (exit e m) \<noteq> None"
  by (simp_all add: exit_def split: option.splits)

text \<open>
  A loop over entries that only stage objects of their own, begun without an exit state:
  it completes, and its pending state is the one it began with, overlaid with the staged
  partial states in their order.
\<close>

lemma staging_loop:
  assumes "\<forall>(cond, act, p)\<in>set es. \<forall>s m'. snd (act s m') = m' \<and> own_object (fst (act s m'))"
    and "exitState m = None" and "tick (history m) = t"
    and "step_loop t es fired m = Completed fired' m1"
  shows "nextState (history m1) = foldl (++) (nextState (history m)) (staged es m)
       \<and> exitState m1 = None \<and> tick (history m1) = t
       \<and> maxHistory (history m1) = maxHistory (history m)
       \<and> inputKeys (history m1) = inputKeys (history m)"
  using assms
proof (induction es arbitrary: fired m)
  case Nil
  then show ?case by simp
next
  case (Cons e es)
  obtain cond act p where e: "e = (cond, act, p)"
    by (cases e)
  have rest: "\<forall>(cond, act, p)\<in>set es. \<forall>s m'. snd (act s m') = m' \<and> own_object (fst (act s m'))"
    using Cons.prems(1) by simp
  have pure: "\<And>s m'. snd (act s m') = m' \<and> own_object (fst (act s m'))"
    using Cons.prems(1) e by simp
  show ?case
  proof (cases "cond (currentState (history m)) m")
    case False
    then have "step_loop t es fired m = Completed fired' m1"
      using Cons.prems(2-4) e by simp
    then show ?thesis
      using Cons.IH [OF rest Cons.prems(2,3)] False e by simp
  next
    case c: True
    obtain q where a: "act (currentState (history m)) m = (q, m)"
      using pure [of "currentState (history m)" m]
      by (cases "act (currentState (history m)) m") simp
    have own: "own_object q"
      using pure [of "currentState (history m)" m] a by simp
    let ?m' = "stage q m"
    have x': "exitState ?m' = None"
      using Cons.prems(2) by simp
    have t': "tick (history ?m') = t"
      using Cons.prems(3) by simp
    have loop: "step_loop t es (fired + 1) ?m' = Completed fired' m1"
      using Cons.prems(2-4) c a e by simp
    have ih: "nextState (history m1) = foldl (++) (nextState (history ?m')) (staged es ?m')
       \<and> exitState m1 = None \<and> tick (history m1) = t
       \<and> maxHistory (history m1) = maxHistory (history ?m')
       \<and> inputKeys (history m1) = inputKeys (history ?m')"
      by (rule Cons.IH [OF rest x' t' loop])
    show ?thesis
    proof (cases q)
      case Undefined
      then show ?thesis
        using ih c a e by simp
    next
      case (Fresh s)
      then show ?thesis
        using ih c a e by (simp add: nextState_stage_Fresh)
    next
      case (Held r)
      then show ?thesis
        using own by simp
    qed
  qed
qed

text \<open>
  Claim C10, as the code has it.  The tick starts on the machine \<open>bootstrap m\<close>, without
  an exit state.  Let the entries before some entry only stage objects of their own, and
  let that entry fire with an action that calls \<open>exit\<close>, does nothing else to the
  machine, and returns nothing or an object of its own.  Then no later entry is
  evaluated, and \<open>step\<close> commits: it returns the number of entries that fired, and the
  current state is the pending state the tick started with, overlaid with the partial
  states staged by the entries that fired, in their order, the halting one last.  The
  exit state is set: it is the current state at the call of \<open>exit\<close>, merged with the
  argument of \<open>exit\<close> if there is one, unless the exit state object is the pending state
  object (the records array was empty), which the halting action's own partial state
  still changes.  The retention limit is one the history can hold.
\<close>

theorem exit_mid_tick_commits:
  assumes "valid_limit (maxHistory (history m))" and "exitState m = None"
    and "sorted_actions prog (bootstrap m) = pre @ (cond, act, p) # post"
    and "\<forall>(c, a, r)\<in>set pre. \<forall>s m'. snd (a s m') = m' \<and> own_object (fst (a s m'))"
    and "step_loop (tick (history (bootstrap m))) pre 0 (bootstrap m) = Completed fired m1"
    and "cond (currentState (history m1)) m1"
    and "act (currentState (history m1)) m1 = (newState, exit e m1)"
    and "own_object newState"
  shows "step prog m = (fired + 1,
            (stage newState (exit e m1))
              \<lparr>history := nextTick (history (stage newState (exit e m1)))\<rparr>)
     \<and> exitState (snd (step prog m)) \<noteq> None
     \<and> exitState (snd (step prog m)) = exitState (stage newState (exit e m1))
     \<and> (map_option fst (exitState_object (exit e m1)) \<noteq> Some (fst (nextState_object (history m1)))
          \<longrightarrow> exitState (snd (step prog m))
                = Some (case e of
                          Some x \<Rightarrow> currentState (history m1) ++ x
                        | None \<Rightarrow> currentState (history m1)))
     \<and> currentState (history (snd (step prog m)))
         = foldl (++) (nextState (history (bootstrap m)))
             (staged pre (bootstrap m)
              @ (case newState of
                   Fresh q \<Rightarrow> [delete_keys (inputKeys (history m)) q]
                 | other \<Rightarrow> []))"
proof -
  let ?t = "tick (history (bootstrap m))"
  let ?m2 = "exit e m1"
  have x0: "exitState (bootstrap m) = None"
    using assms(2) by (simp add: bootstrap_def)
  have pre: "nextState (history m1) = foldl (++) (nextState (history (bootstrap m))) (staged pre (bootstrap m))
       \<and> exitState m1 = None \<and> tick (history m1) = ?t
       \<and> maxHistory (history m1) = maxHistory (history (bootstrap m))
       \<and> inputKeys (history m1) = inputKeys (history (bootstrap m))"
    by (rule staging_loop [OF assms(4) x0 refl assms(5)])
  have keys: "inputKeys (history m1) = inputKeys (history m)"
    using pre by (simp add: bootstrap_def nextTick_def beginTick_def Let_def)
  have lim: "valid_limit (maxHistory (history (stage newState ?m2)))"
    using pre assms(1) by (simp add: bootstrap_def)
  have "step_loop ?t ((cond, act, p) # post) fired m1
      = step_loop ?t post (fired + 1) (stage newState ?m2)"
    using pre assms(6,7) by simp
  also have "\<dots> = Completed (fired + 1) (stage newState ?m2)"
    by (rule step_loop_exited) simp
  finally have "step_loop ?t (sorted_actions prog (bootstrap m)) 0 (bootstrap m)
      = Completed (fired + 1) (stage newState ?m2)"
    using assms(3,5) by (simp add: step_loop_append)
  then have s: "step prog m = (fired + 1,
            (stage newState ?m2)\<lparr>history := nextTick (history (stage newState ?m2))\<rparr>)"
    by (simp add: step_def Let_def)
  have cur: "currentState (history (snd (step prog m))) = nextState (history (stage newState ?m2))"
    using s lim by (simp add: currentState_nextTick)
  have "nextState (history (stage newState ?m2))
      = foldl (++) (nextState (history (bootstrap m)))
          (staged pre (bootstrap m)
           @ (case newState of Fresh q \<Rightarrow> [delete_keys (inputKeys (history m)) q] | other \<Rightarrow> []))"
  proof (cases newState)
    case Undefined
    then show ?thesis using pre by simp
  next
    case (Fresh q)
    then show ?thesis using pre keys by (simp add: nextState_stage_Fresh)
  next
    case (Held r)
    then show ?thesis using assms(8) by simp
  qed
  moreover have "exitState (stage newState ?m2)
      = Some (case e of Some x \<Rightarrow> currentState (history m1) ++ x | None \<Rightarrow> currentState (history m1))"
    if "map_option fst (exitState_object ?m2) \<noteq> Some (fst (nextState_object (history m1)))"
  proof -
    have "map_option fst (exitState_object ?m2) \<noteq> Some (fst (nextState_object (history ?m2)))"
      using that by simp
    then have "exitState_object (stage newState ?m2) = exitState_object ?m2"
      using assms(8) by (cases newState) (simp_all add: stage_Fresh_exit_object)
    then have same: "exitState (stage newState ?m2) = exitState ?m2"
      by simp
    have "exitState ?m2
        = Some (case e of Some x \<Rightarrow> currentState (history m1) ++ x | None \<Rightarrow> currentState (history m1))"
      by (cases e) (simp_all add: exit_def currentState_def)
    then show ?thesis
      by (rule trans [OF same])
  qed
  ultimately show ?thesis
    using s cur by simp
qed

text \<open>
  The theorem at work on the extended scenario B at the counter value 3: the increment
  is staged, the halting entry sets the exit state \<open>{counter: 3}\<close>, the third entry is
  skipped, and the committed current state is \<open>{counter: 4}\<close>, which differs from the
  exit state.
\<close>

theorem exit_mid_tick_commits_witness:
  "valid_limit (maxHistory (history machine3))
   \<and> exitState machine3 = None
   \<and> sorted_actions scenario_B_extended (bootstrap machine3) =
       [(always, increment, Finite 0)] @ (counter_ge3, halt, Finite 1) # [(always, overwrite, Finite 2)]
   \<and> step_loop (tick (history (bootstrap machine3))) [(always, increment, Finite 0)] 0
         (bootstrap machine3) = Completed 1 (staged_machine 3)
   \<and> counter_ge3 (currentState (history (staged_machine 3))) (staged_machine 3)
   \<and> halt (currentState (history (staged_machine 3))) (staged_machine 3)
       = (Undefined, exit None (staged_machine 3))
   \<and> staged [(always, increment, Finite 0)] (bootstrap machine3) = [[''counter'' \<mapsto> 4]]
   \<and> map_option fst (exitState_object (exit None (staged_machine 3)))
       \<noteq> Some (fst (nextState_object (history (staged_machine 3))))
   \<and> fst (step scenario_B_extended machine3) = 2
   \<and> exitState (snd (step scenario_B_extended machine3)) = Some [''counter'' \<mapsto> 3]
   \<and> currentState (history (snd (step scenario_B_extended machine3))) = [''counter'' \<mapsto> 4]"
proof -
  let ?m = "counter_machine 3"
  have b: "bootstrap ?m = ?m"
    by (rule bootstrap_counter_machine)
  have v: "valid_limit (maxHistory (history ?m))"
    by (simp add: counter_machine_def valid_limit_def)
  have x: "exitState ?m = None"
    by (simp add: counter_machine_def)
  have o: "\<forall>(c, a, r)\<in>set [(always, increment, Finite 0)].
      \<forall>s m'. snd (a s m') = m' \<and> own_object (fst (a s m'))"
    by (simp add: increment_def split: option.splits)
  have l: "step_loop (tick (history (bootstrap ?m))) [(always, increment, Finite 0)] 0 (bootstrap ?m)
      = Completed 1 (staged_machine 3)"
    by (simp only: b staged_machine_facts(1))
  have c: "counter_ge3 (currentState (history (staged_machine 3))) (staged_machine 3)"
    by (simp add: staged_machine_facts counter_ge3_def)
  have a: "halt (currentState (history (staged_machine 3))) (staged_machine 3)
      = (Undefined, exit None (staged_machine 3))"
    by (simp add: halt_def)
  have st: "staged [(always, increment, Finite 0)] (bootstrap ?m) = [[''counter'' \<mapsto> 4]]"
    by (simp only: b) (simp add: always_def increment_def currentState_counter_machine
        delete_keys_def, simp add: counter_machine_def)
  have n: "nextState (history (bootstrap ?m)) = [''counter'' \<mapsto> 3]"
    by (simp only: b) (simp add: counter_machine_def)
  have main: "step scenario_B_extended ?m = (1 + 1,
            (stage Undefined (exit None (staged_machine 3)))
              \<lparr>history := nextTick (history (stage Undefined (exit None (staged_machine 3))))\<rparr>)
     \<and> exitState (snd (step scenario_B_extended ?m)) \<noteq> None
     \<and> exitState (snd (step scenario_B_extended ?m))
         = exitState (stage Undefined (exit None (staged_machine 3)))
     \<and> (map_option fst (exitState_object (exit None (staged_machine 3)))
            \<noteq> Some (fst (nextState_object (history (staged_machine 3))))
          \<longrightarrow> exitState (snd (step scenario_B_extended ?m))
                = Some (case None of
                          Some x \<Rightarrow> currentState (history (staged_machine 3)) ++ x
                        | None \<Rightarrow> currentState (history (staged_machine 3))))
     \<and> currentState (history (snd (step scenario_B_extended ?m)))
         = foldl (++) (nextState (history (bootstrap ?m)))
             (staged [(always, increment, Finite 0)] (bootstrap ?m)
              @ (case Undefined of
                   Fresh q \<Rightarrow> [delete_keys (inputKeys (history ?m)) q]
                 | other \<Rightarrow> []))"
    by (rule exit_mid_tick_commits [OF v x sorted_actions_scenario_B_extended o l c a]) simp
  have r1: "fst (step scenario_B_extended ?m) = 2"
    using conjunct1 [OF main] by simp
  have d: "map_option fst (exitState_object (exit None (staged_machine 3)))
      \<noteq> Some (fst (nextState_object (history (staged_machine 3))))"
    by (simp add: exit_def staged_machine_def counter_machine_def currentState_object_def
        records_last_def upt_rec)
  have r2: "exitState (snd (step scenario_B_extended ?m)) = Some [''counter'' \<mapsto> 3]"
    using mp [OF conjunct1 [OF conjunct2 [OF conjunct2 [OF conjunct2 [OF main]]]] d]
    by (simp add: staged_machine_facts)
  have r3: "currentState (history (snd (step scenario_B_extended ?m))) = [''counter'' \<mapsto> 4]"
    using conjunct2 [OF conjunct2 [OF conjunct2 [OF conjunct2 [OF main]]]] unfolding st n by simp
  show ?thesis
    unfolding machine3_eq
    using v x sorted_actions_scenario_B_extended [of "bootstrap ?m"] l c a st d r1 r2 r3
    by blast
qed

text \<open>
  When the halting action rewinds before it calls \<open>exit()\<close>, the rewind begins a new
  pending state and what was staged before is lost.  At the counter value 3 the increment
  stages \<open>{counter: 4}\<close>; the second action rewinds by one and exits; \<open>step\<close> returns 2
  and commits, with the exit state and the current state both \<open>{counter: 0}\<close>.
\<close>

theorem exit_after_rewind_counterexample:
  "nextState (history (stage (fst (increment (currentState (history machine3)) machine3))
       machine3)) ''counter'' = Some 4
   \<and> fst (step scenario_rewind_halt machine3) = 2
   \<and> exitState (snd (step scenario_rewind_halt machine3)) = Some [''counter'' \<mapsto> 0]
   \<and> tick (history (snd (step scenario_rewind_halt machine3))) = 4
   \<and> length (records (history (snd (step scenario_rewind_halt machine3)))) = 2
   \<and> currentState (history (snd (step scenario_rewind_halt machine3))) ''counter'' = Some 0
   \<and> currentState (history (snd (step scenario_rewind_halt machine3))) ''counter'' \<noteq> Some 4"
  by (simp add: machine3_eq scenario_rewind_halt_def rewind_and_halt_def overwrite_def
      scenario_defs history_defs engine_defs Let_def upt_rec)

text \<open>
  An action before the halting one can lose what was staged as well.  \<open>rewind(0)\<close>
  removes all records and begins a new pending state, and it leaves the tick counter as
  it is, so that the tick goes on: the increment stages \<open>{counter: 4}\<close>, the second
  action calls \<open>rewind(0)\<close>, the third one halts, and \<open>step\<close> returns 3 and commits
  the empty state.
\<close>

lemma earlier_rewind_loses_staged:
  "fst (step scenario_rewind_zero machine3) = 3
   \<and> tick (history (snd (step scenario_rewind_zero machine3))) = 5
   \<and> exitState (snd (step scenario_rewind_zero machine3)) = Some Map.empty
   \<and> records (history (snd (step scenario_rewind_zero machine3))) = [Map.empty]
   \<and> currentState (history (snd (step scenario_rewind_zero machine3))) ''counter'' = None"
  by (simp add: machine3_eq scenario_rewind_zero_def rewind_zero_def
      scenario_defs history_defs engine_defs Let_def upt_rec)

section \<open>Input bindings\<close>









lemma beginTick_fields [simp]:
  "inputKeys (beginTick h) = inputKeys h"
  "inputs (beginTick h) = inputs h"
  "instance_props (beginTick h) = instance_props h"
  "maxHistory (beginTick h) = maxHistory h"
  "tick (beginTick h) = tick h"
  "collectInputs (beginTick h) = collectInputs h"
  by (simp_all add: beginTick_def)

lemma nextTick_fields [simp]:
  "inputKeys (nextTick h) = inputKeys h"
  "inputs (nextTick h) = inputs h"
  "instance_props (nextTick h) = instance_props h"
  "collectInputs (nextTick h) = collectInputs h"
  by (simp_all add: nextTick_def beginTick_def Let_def collectInputs_def)




lemmas sensor_defs = sensor_machine_def sensor_binding_def sensor_instance_def tamper_def
  tamper_program_def



text \<open>
  Object sharing at work.  \<open>_mutateTick(p)\<close> deletes the input keys from the object it is
  given.  When an action returns the pending state object \<open>this.history.nextState\<close>, the
  keys are deleted from the pending state, and the record committed has no \<open>temp\<close>.  When
  an action calls \<open>exit()\<close> and returns its \<open>state\<close> argument, that object is the newest
  record and the exit state: both lose \<open>temp\<close>.
\<close>

lemma returned_held_objects_lose_input_keys:
  "currentState (history sensor_machine) ''temp'' = Some 42
   \<and> fst (step pending_program sensor_machine) = 1
   \<and> currentState (history (snd (step pending_program sensor_machine))) ''temp'' = None
   \<and> currentState (history (snd (step pending_program sensor_machine))) ''counter'' = Some 0
   \<and> fst (step state_program sensor_machine) = 1
   \<and> exitState (snd (step state_program sensor_machine)) = Some [''counter'' \<mapsto> 0]
   \<and> map (\<lambda>r. r ''temp'') (records (history (snd (step state_program sensor_machine))))
       = [None, Some 42]"
  by (simp add: sensor_defs pending_program_def return_pending_def state_program_def
      halt_return_state_def always_def counter_init_def history_defs engine_defs Let_def)

end
